theory Spec2Isabelle
  imports Complex_Main "HOL-Library.Sublist" "HOL-Library.Monad_Syntax" "HOL-Library.AList"
    "HOL-Library.Char_ord" "HOL-Library.List_Lexorder"
begin

section \<open>JSON values and the accessors of the JSON library\<close>

text \<open>
  The agent stores everything as \<^verbatim>\<open>nlohmann::ordered_json\<close>: an object keeps its
  keys in insertion order, so it is an association list.  Integers of both signs are one
  constructor; a floating-point number carries its value.
\<close>

datatype json =
    JNull
  | JBool bool
  | JInt int
  | JFloat rat
  | JStr string
  | JArr "json list"
  | JObj "(string \<times> json) list"

text \<open>
  The library itself is not part of the repository.  Its text-level functions
  (\<^verbatim>\<open>json::parse\<close>, \<^verbatim>\<open>dump(2)\<close>) are parameters of every function that calls
  them: \<open>jparse\<close> returns \<open>None\<close> where \<^verbatim>\<open>json::parse\<close> throws
  \<^verbatim>\<open>json::parse_error\<close>.
\<close>

record json_lib =
  jparse :: "string \<Rightarrow> json option"
  jdump :: "json \<Rightarrow> string"

text \<open>
  The value-level accessors are modelled from the library's documented behaviour.  A result
  \<open>None\<close> stands for a thrown \<^verbatim>\<open>json::type_error\<close> (a \<^verbatim>\<open>json::exception\<close>).
  \<^verbatim>\<open>j.value(key, default)\<close> throws on a non-object, returns the default when the key is
  absent, and otherwise converts the stored value to the type of the default.
\<close>

definition is_array :: "json \<Rightarrow> bool" where
  "is_array j = (case j of JArr _ \<Rightarrow> True | _ \<Rightarrow> False)"

definition is_string :: "json \<Rightarrow> bool" where
  "is_string j = (case j of JStr _ \<Rightarrow> True | _ \<Rightarrow> False)"

definition contains :: "json \<Rightarrow> string \<Rightarrow> bool" where
  "contains j key = (case j of JObj kvs \<Rightarrow> map_of kvs key \<noteq> None | _ \<Rightarrow> False)"

definition get_string :: "json \<Rightarrow> string option" where
  "get_string j = (case j of JStr s \<Rightarrow> Some s | _ \<Rightarrow> None)"

definition get_bool :: "json \<Rightarrow> bool option" where
  "get_bool j = (case j of JBool b \<Rightarrow> Some b | _ \<Rightarrow> None)"

definition to_int32 :: "int \<Rightarrow> int" where
  "to_int32 n = signed_take_bit 31 n"

definition get_int :: "json \<Rightarrow> int option" where
  "get_int j =
     (case j of
        JInt n \<Rightarrow> Some (to_int32 n)
      | JBool b \<Rightarrow> Some (if b then 1 else 0)
      | JFloat r \<Rightarrow> Some (to_int32 (if 0 \<le> r then \<lfloor>r\<rfloor> else \<lceil>r\<rceil>))
      | _ \<Rightarrow> None)"

definition value_json :: "json \<Rightarrow> string \<Rightarrow> json \<Rightarrow> json option" where
  "value_json j key dflt =
     (case j of
        JObj kvs \<Rightarrow> (case map_of kvs key of None \<Rightarrow> Some dflt | Some v \<Rightarrow> Some v)
      | _ \<Rightarrow> None)"

definition value_str :: "json \<Rightarrow> string \<Rightarrow> string \<Rightarrow> string option" where
  "value_str j key dflt =
     (case j of
        JObj kvs \<Rightarrow> (case map_of kvs key of None \<Rightarrow> Some dflt | Some v \<Rightarrow> get_string v)
      | _ \<Rightarrow> None)"

definition value_int :: "json \<Rightarrow> string \<Rightarrow> int \<Rightarrow> int option" where
  "value_int j key dflt =
     (case j of
        JObj kvs \<Rightarrow> (case map_of kvs key of None \<Rightarrow> Some dflt | Some v \<Rightarrow> get_int v)
      | _ \<Rightarrow> None)"

text \<open>
  \<^verbatim>\<open>j[key]\<close> on a constant object whose key is known to be present, and the
  non-constant \<^verbatim>\<open>j[key] = v\<close>, which turns \<^verbatim>\<open>null\<close> into an object, replaces the value of
  an existing key in place, appends a new key, and throws on any other type.
\<close>

definition at_key :: "json \<Rightarrow> string \<Rightarrow> json option" where
  "at_key j key = (case j of JObj kvs \<Rightarrow> map_of kvs key | _ \<Rightarrow> None)"

fun assoc_set :: "(string \<times> json) list \<Rightarrow> string \<Rightarrow> json \<Rightarrow> (string \<times> json) list" where
  "assoc_set [] k v = [(k, v)]"
| "assoc_set ((k', v') # kvs) k v =
     (if k' = k then (k, v) # kvs else (k', v') # assoc_set kvs k v)"

definition set_key :: "json \<Rightarrow> string \<Rightarrow> json \<Rightarrow> json option" where
  "set_key j key v =
     (case j of
        JObj kvs \<Rightarrow> Some (JObj (assoc_set kvs key v))
      | JNull \<Rightarrow> Some (JObj [(key, v)])
      | _ \<Rightarrow> None)"


text \<open>
  A range-based \<^verbatim>\<open>for\<close> over a JSON value visits the elements of an array, the values of an
  object, nothing for \<^verbatim>\<open>null\<close>, and a primitive value itself once.
\<close>

definition items :: "json \<Rightarrow> json list" where
  "items j = (case j of JArr xs \<Rightarrow> xs | JObj kvs \<Rightarrow> map snd kvs | JNull \<Rightarrow> [] | _ \<Rightarrow> [j])"

definition json_size :: "json \<Rightarrow> nat" where
  "json_size j = (case j of JArr xs \<Rightarrow> length xs | JObj kvs \<Rightarrow> length kvs | JNull \<Rightarrow> 0 | _ \<Rightarrow> 1)"

definition json_empty :: "json \<Rightarrow> bool" where
  "json_empty j = (json_size j = 0)"

definition json_strings :: "string list \<Rightarrow> json" where
  "json_strings xs = JArr (map JStr xs)"

section \<open>Strings\<close>

text \<open>\<^verbatim>\<open>std::string::find\<close>: the first position at which the pattern occurs, from a start.\<close>

fun find_str :: "string \<Rightarrow> string \<Rightarrow> nat option" where
  "find_str pat [] = (if pat = [] then Some 0 else None)"
| "find_str pat (c # cs) =
     (if prefix pat (c # cs) then Some 0 else map_option Suc (find_str pat cs))"

definition find_from :: "string \<Rightarrow> string \<Rightarrow> nat \<Rightarrow> nat option" where
  "find_from pat s pos =
     (if length s < pos then None else map_option (\<lambda>i. i + pos) (find_str pat (drop pos s)))"

definition substr :: "string \<Rightarrow> nat \<Rightarrow> nat \<Rightarrow> string" where
  "substr s pos n = take n (drop pos s)"

text \<open>
  \<^verbatim>\<open>std::islower\<close> and \<^verbatim>\<open>std::isdigit\<close> in the C locale, on the byte value of the
  character; a byte above 127 is in neither class.
\<close>

definition islower :: "char \<Rightarrow> bool" where
  "islower c = (97 \<le> (of_char c :: nat) \<and> (of_char c :: nat) \<le> 122)"

definition isdigit :: "char \<Rightarrow> bool" where
  "isdigit c = (48 \<le> (of_char c :: nat) \<and> (of_char c :: nat) \<le> 57)"

section \<open>Agent names (agent-registry.cpp)\<close>

text \<open>The loop of \<^verbatim>\<open>agent_registry::validate_name\<close>, with its flag \<^verbatim>\<open>prev_hyphen\<close>.\<close>

fun name_loop :: "bool \<Rightarrow> string \<Rightarrow> bool" where
  "name_loop prev_hyphen [] = True"
| "name_loop prev_hyphen (c # cs) =
     (if c = CHR ''-'' then (if prev_hyphen then False else name_loop True cs)
      else if islower c \<or> isdigit c then name_loop False cs
      else False)"

definition validate_name :: "string \<Rightarrow> bool" where
  "validate_name name =
     (if name = [] \<or> 64 < length name then False
      else if hd name = CHR ''-'' \<or> last name = CHR ''-'' then False
      else name_loop False name)"

text \<open>
  The specification's pattern \<^verbatim>\<open>^[a-z0-9]+(-[a-z0-9]+)*$\<close>, as the language it denotes:
  a non-empty run of lower-case letters and digits, followed by any number of groups made
  of a hyphen and another such run.
\<close>

definition alnum_run :: "string \<Rightarrow> bool" where
  "alnum_run w = (w \<noteq> [] \<and> list_all (\<lambda>c. islower c \<or> isdigit c) w)"

inductive name_pattern :: "string \<Rightarrow> bool" where
  run: "alnum_run w \<Longrightarrow> name_pattern w"
| group: "name_pattern u \<Longrightarrow> alnum_run w \<Longrightarrow> name_pattern (u @ CHR ''-'' # w)"

section \<open>Decimal output\<close>

text \<open>\<^verbatim>\<open>std::to_string\<close> and \<^verbatim>\<open>operator<<\<close> on an \<^verbatim>\<open>int\<close>.\<close>

definition digit_char :: "nat \<Rightarrow> char" where
  "digit_char d = ''0123456789'' ! d"

function dec_digits :: "nat \<Rightarrow> string" where
  "dec_digits n = (if n < 10 then [digit_char n] else dec_digits (n div 10) @ [digit_char (n mod 10)])"
  by pat_completeness auto
termination
  by (relation "measure id") auto

declare dec_digits.simps [simp del]

definition to_string :: "int \<Rightarrow> string" where
  "to_string i = (if i < 0 then CHR ''-'' # dec_digits (nat (- i)) else dec_digits (nat i))"

section \<open>The file system\<close>

text \<open>
  The state of the disk as the agent sees it: the regular files with their bytes and the
  directories.  What the operating system may refuse is part of the state: opening a path
  for reading or for writing, creating a directory, renaming onto a path, and for each path
  the number of bytes a stream accepts before it fails (no entry: no limit).
\<close>

record filesystem =
  files :: "string \<rightharpoonup> string"
  dirs :: "string set"
  read_denied :: "string set"
  open_denied :: "string set"
  write_limit :: "string \<rightharpoonup> nat"
  mkdir_denied :: "string set"
  rename_denied :: "string set"

datatype exn = filesystem_error | json_exception

definition parent_path :: "string \<Rightarrow> string" where
  "parent_path p =
     (if CHR ''/'' \<in> set p then rev (tl (dropWhile (\<lambda>c. c \<noteq> CHR ''/'') (rev p))) else [])"

definition exists :: "filesystem \<Rightarrow> string \<Rightarrow> bool" where
  "exists fs p = (files fs p \<noteq> None \<or> p \<in> dirs fs)"

text \<open>\<^verbatim>\<open>fs::create_directories\<close>; \<open>None\<close> is its failure (an error code or an exception).\<close>

definition create_directories :: "filesystem \<Rightarrow> string \<Rightarrow> filesystem option" where
  "create_directories fs p =
     (if p \<in> mkdir_denied fs \<or> files fs p \<noteq> None then None
      else Some (fs\<lparr>dirs := insert p (dirs fs)\<rparr>))"

text \<open>
  \<^verbatim>\<open>std::ofstream f(p)\<close>: opening truncates the file; \<open>None\<close> is a stream that failed to
  open.  \<^verbatim>\<open>f << text\<close> then stores the text, or only the bytes the stream accepts; the
  boolean is the state of the stream afterwards.
\<close>

definition open_out :: "filesystem \<Rightarrow> string \<Rightarrow> filesystem option" where
  "open_out fs p =
     (if p \<in> open_denied fs \<or> p \<in> dirs fs
         \<or> (parent_path p \<noteq> [] \<and> parent_path p \<notin> dirs fs) then None
      else Some (fs\<lparr>files := (files fs)(p \<mapsto> [])\<rparr>))"

definition write_out :: "filesystem \<Rightarrow> string \<Rightarrow> string \<Rightarrow> bool \<times> filesystem" where
  "write_out fs p text =
     (case write_limit fs p of
        None \<Rightarrow> (True, fs\<lparr>files := (files fs)(p \<mapsto> text)\<rparr>)
      | Some n \<Rightarrow>
          if length text \<le> n then (True, fs\<lparr>files := (files fs)(p \<mapsto> text)\<rparr>)
          else (False, fs\<lparr>files := (files fs)(p \<mapsto> take n text)\<rparr>))"

definition rename_file :: "filesystem \<Rightarrow> string \<Rightarrow> string \<Rightarrow> filesystem option" where
  "rename_file fs src dst =
     (case files fs src of
        None \<Rightarrow> None
      | Some text \<Rightarrow>
          if dst \<in> rename_denied fs \<or> dst \<in> dirs fs then None
          else Some (fs\<lparr>files := ((files fs)(src := None))(dst \<mapsto> text)\<rparr>))"

definition remove_file :: "filesystem \<Rightarrow> string \<Rightarrow> filesystem" where
  "remove_file fs p = fs\<lparr>files := (files fs)(p := None)\<rparr>"

text \<open>\<^verbatim>\<open>std::ifstream f(p)\<close> and reading the whole stream; \<open>None\<close> is a stream that failed to open.\<close>

definition read_in :: "filesystem \<Rightarrow> string \<Rightarrow> string option" where
  "read_in fs p = (if p \<in> read_denied fs then None else files fs p)"

section \<open>The planning state machine (plan-state.h, plan-state.cpp)\<close>

datatype planning_state =
    IDLE
  | EXPLORING
  | SYNTHESIZING
  | QUESTIONING
  | AWAITING_ANSWERS
  | REFINING
  | AWAITING_APPROVAL
  | APPROVED
  | ABORTED

record planning_session =
  s_state :: planning_state
  s_context_id :: string
  s_task :: string
  s_exploration_findings :: string
  s_plan_content :: string
  s_questions :: json
  s_answers :: json
  s_iteration :: int
  s_plan_path :: string
  s_created_at :: string
  s_updated_at :: string

text \<open>A value-initialised \<^verbatim>\<open>planning_session{}\<close>.\<close>

definition new_session :: planning_session where
  "new_session =
     \<lparr>s_state = IDLE, s_context_id = [], s_task = [], s_exploration_findings = [],
      s_plan_content = [], s_questions = JNull, s_answers = JNull, s_iteration = 0,
      s_plan_path = [], s_created_at = [], s_updated_at = []\<rparr>"

fun state_to_string :: "planning_state \<Rightarrow> string" where
  "state_to_string IDLE = ''idle''"
| "state_to_string EXPLORING = ''exploring''"
| "state_to_string SYNTHESIZING = ''synthesizing''"
| "state_to_string QUESTIONING = ''questioning''"
| "state_to_string AWAITING_ANSWERS = ''awaiting_answers''"
| "state_to_string REFINING = ''refining''"
| "state_to_string AWAITING_APPROVAL = ''awaiting_approval''"
| "state_to_string APPROVED = ''approved''"
| "state_to_string ABORTED = ''aborted''"

definition string_to_state :: "string \<Rightarrow> planning_state" where
  "string_to_state s =
     (if s = ''idle'' then IDLE
      else if s = ''exploring'' then EXPLORING
      else if s = ''synthesizing'' then SYNTHESIZING
      else if s = ''questioning'' then QUESTIONING
      else if s = ''awaiting_answers'' then AWAITING_ANSWERS
      else if s = ''refining'' then REFINING
      else if s = ''awaiting_approval'' then AWAITING_APPROVAL
      else if s = ''approved'' then APPROVED
      else if s = ''aborted'' then ABORTED
      else IDLE)"

definition session_to_json :: "planning_session \<Rightarrow> json" where
  "session_to_json s =
     JObj [(''state'', JStr (state_to_string (s_state s))),
           (''context_id'', JStr (s_context_id s)),
           (''task'', JStr (s_task s)),
           (''exploration_findings'', JStr (s_exploration_findings s)),
           (''plan_content'', JStr (s_plan_content s)),
           (''questions'', s_questions s),
           (''answers'', s_answers s),
           (''iteration'', JInt (s_iteration s)),
           (''plan_path'', JStr (s_plan_path s)),
           (''created_at'', JStr (s_created_at s)),
           (''updated_at'', JStr (s_updated_at s))]"

text \<open>\<^verbatim>\<open>planning_session::from_json\<close>; \<open>None\<close> is a \<^verbatim>\<open>json::exception\<close> thrown by an accessor.\<close>

definition session_from_json :: "json \<Rightarrow> planning_session option" where
  "session_from_json j =
     do {
       st \<leftarrow> value_str j ''state'' ''idle'';
       cid \<leftarrow> value_str j ''context_id'' [];
       tk \<leftarrow> value_str j ''task'' [];
       ef \<leftarrow> value_str j ''exploration_findings'' [];
       pc \<leftarrow> value_str j ''plan_content'' [];
       qs \<leftarrow> value_json j ''questions'' (JArr []);
       as \<leftarrow> value_json j ''answers'' (JArr []);
       it \<leftarrow> value_int j ''iteration'' 0;
       pp \<leftarrow> value_str j ''plan_path'' [];
       ca \<leftarrow> value_str j ''created_at'' [];
       ua \<leftarrow> value_str j ''updated_at'' [];
       Some \<lparr>s_state = string_to_state st, s_context_id = cid, s_task = tk,
             s_exploration_findings = ef, s_plan_content = pc, s_questions = qs,
             s_answers = as, s_iteration = it, s_plan_path = pp, s_created_at = ca,
             s_updated_at = ua\<rparr>
     }"

text \<open>
  The machine holds its session (\<^verbatim>\<open>session_\<close>) and a reference to the context manager
  (\<^verbatim>\<open>ctx_mgr_\<close>), of which it uses the base path.  The clock (\<^verbatim>\<open>get_timestamp\<close>) is the argument \<open>now\<close> of each operation.
\<close>

record planning_state_machine =
  session :: planning_session
  ctx_base_path :: string

definition new_machine :: "string \<Rightarrow> planning_state_machine" where
  "new_machine base = \<lparr>session = new_session, ctx_base_path = base\<rparr>"

definition context_path :: "string \<Rightarrow> string \<Rightarrow> string" where
  "context_path base cid = base @ ''/contexts/'' @ cid"

definition get_plan_path :: "planning_state_machine \<Rightarrow> string" where
  "get_plan_path m = context_path (ctx_base_path m) (s_context_id (session m)) @ ''/plan.md''"

definition get_state_path :: "planning_state_machine \<Rightarrow> string" where
  "get_state_path m = context_path (ctx_base_path m) (s_context_id (session m)) @ ''/plan_state.json''"


text \<open>
  \<^verbatim>\<open>save\<close>: the outcome is the returned boolean, or the exception that
  \<^verbatim>\<open>create_directories\<close> and \<^verbatim>\<open>rename\<close> throw when they fail.
\<close>

definition save ::
  "json_lib \<Rightarrow> planning_state_machine \<Rightarrow> filesystem \<Rightarrow> (exn + bool) \<times> filesystem" where
  "save L m fs =
     (let path = get_state_path m; parent = parent_path path in
      case (if exists fs parent then Some fs else create_directories fs parent) of
        None \<Rightarrow> (Inl filesystem_error, fs)
      | Some fs1 \<Rightarrow>
          (let temp_path = path @ ''.tmp'' in
           case open_out fs1 temp_path of
             None \<Rightarrow> (Inr False, fs1)
           | Some fs2 \<Rightarrow>
               (case write_out fs2 temp_path (jdump L (session_to_json (session m))) of
                  (False, fs3) \<Rightarrow> (Inr False, remove_file fs3 temp_path)
                | (True, fs3) \<Rightarrow>
                    (case rename_file fs3 temp_path path of
                       None \<Rightarrow> (Inl filesystem_error, fs3)
                     | Some fs4 \<Rightarrow> (Inr True, fs4)))))"

definition start ::
  "json_lib \<Rightarrow> string \<Rightarrow> string \<Rightarrow> string \<Rightarrow> planning_state_machine \<Rightarrow> filesystem
     \<Rightarrow> (exn + bool) \<times> planning_state_machine \<times> filesystem" where
  "start L now task context_id m fs =
     (if s_state (session m) \<noteq> IDLE then (Inr False, m, fs)
      else
        (let m1 = m\<lparr>session := new_session\<lparr>s_state := EXPLORING, s_context_id := context_id,
                      s_task := task, s_iteration := 0, s_created_at := now,
                      s_updated_at := now\<rparr>\<rparr>;
             m2 = m1\<lparr>session := (session m1)\<lparr>s_plan_path := get_plan_path m1\<rparr>\<rparr>
         in case save L m2 fs of (r, fs') \<Rightarrow> (r, m2, fs')))"




definition is_active :: "planning_state_machine \<Rightarrow> bool" where
  "is_active m =
     (s_state (session m) \<noteq> IDLE \<and> s_state (session m) \<noteq> APPROVED
      \<and> s_state (session m) \<noteq> ABORTED)"

definition is_interactive :: "planning_state_machine \<Rightarrow> bool" where
  "is_interactive m =
     (s_state (session m) = AWAITING_ANSWERS \<or> s_state (session m) = AWAITING_APPROVAL)"

definition load ::
  "json_lib \<Rightarrow> string \<Rightarrow> planning_state_machine \<Rightarrow> filesystem
     \<Rightarrow> bool \<times> planning_state_machine" where
  "load L context_id m fs =
     (let m1 = m\<lparr>session := (session m)\<lparr>s_context_id := context_id\<rparr>\<rparr>;
          path = get_state_path m1
      in if \<not> exists fs path
         then (False, m1\<lparr>session := new_session\<lparr>s_context_id := context_id\<rparr>\<rparr>)
         else
           (case read_in fs path of
              None \<Rightarrow> (False, m1)
            | Some text \<Rightarrow>
                (case jparse L text of
                   None \<Rightarrow> (False, m1)
                 | Some j \<Rightarrow>
                     (case session_from_json j of
                        None \<Rightarrow> (False, m1)
                      | Some s \<Rightarrow> (True, m1\<lparr>session := s\<lparr>s_context_id := context_id\<rparr>\<rparr>)))))"

definition has_saved_session :: "planning_state_machine \<Rightarrow> filesystem \<Rightarrow> string \<Rightarrow> bool" where
  "has_saved_session m fs context_id =
     exists fs (context_path (ctx_base_path m) context_id @ ''/plan_state.json'')"

text \<open>
  The head of \<^verbatim>\<open>handle_plan_impl\<close>: a fresh machine is built, and the user is asked whether
  to resume exactly when a saved session exists, loads, and is active.
\<close>

definition offers_resume :: "json_lib \<Rightarrow> string \<Rightarrow> string \<Rightarrow> filesystem \<Rightarrow> bool" where
  "offers_resume L base context_id fs =
     (let psm = new_machine base in
      if has_saved_session psm fs context_id
      then (case load L context_id psm fs of (ok, psm') \<Rightarrow> ok \<and> is_active psm')
      else False)"


text \<open>The nine state strings that \<^verbatim>\<open>string_to_state\<close> recognises.\<close>

definition state_strings :: "string list" where
  "state_strings =
     [''idle'', ''exploring'', ''synthesizing'', ''questioning'', ''awaiting_answers'',
      ''refining'', ''awaiting_approval'', ''approved'', ''aborted'']"

section \<open>The context manager (context-manager.h, context-manager.cpp)\<close>

record conversation_state =
  c_id :: string
  c_created_at :: string
  c_updated_at :: string
  c_messages :: json
  c_metadata :: json


definition state_to_json :: "conversation_state \<Rightarrow> json" where
  "state_to_json st =
     JObj ([(''id'', JStr (c_id st)),
            (''created_at'', JStr (c_created_at st)),
            (''updated_at'', JStr (c_updated_at st)),
            (''messages'', c_messages st)]
           @ (if \<not> json_empty (c_metadata st) then [(''metadata'', c_metadata st)] else []))"

definition state_from_json :: "json \<Rightarrow> conversation_state option" where
  "state_from_json j =
     do {
       i \<leftarrow> value_str j ''id'' [];
       ca \<leftarrow> value_str j ''created_at'' [];
       ua \<leftarrow> value_str j ''updated_at'' [];
       ms \<leftarrow> value_json j ''messages'' (JArr []);
       md \<leftarrow> value_json j ''metadata'' (JObj []);
       Some \<lparr>c_id = i, c_created_at = ca, c_updated_at = ua, c_messages = ms, c_metadata = md\<rparr>
     }"


definition ensure_directory :: "filesystem \<Rightarrow> string \<Rightarrow> bool \<times> filesystem" where
  "ensure_directory fs p =
     (case create_directories fs p of None \<Rightarrow> (False, fs) | Some fs' \<Rightarrow> (True, fs'))"

text \<open>
  \<^verbatim>\<open>read_json\<close>: the stream that does not open and the text that does not parse both end
  in \<^verbatim>\<open>std::nullopt\<close>.
\<close>

definition read_json :: "json_lib \<Rightarrow> filesystem \<Rightarrow> string \<Rightarrow> json option" where
  "read_json L fs p = (case read_in fs p of None \<Rightarrow> None | Some text \<Rightarrow> jparse L text)"

text \<open>\<^verbatim>\<open>write_json\<close>: the text goes to \<^verbatim>\<open><path>.tmp\<close>, which is then renamed over the path.\<close>

definition write_json :: "json_lib \<Rightarrow> filesystem \<Rightarrow> string \<Rightarrow> json \<Rightarrow> bool \<times> filesystem" where
  "write_json L fs p data =
     (let temp_path = p @ ''.tmp'' in
      case open_out fs temp_path of
        None \<Rightarrow> (False, fs)
      | Some fs1 \<Rightarrow>
          (case write_out fs1 temp_path (jdump L data) of
             (False, fs2) \<Rightarrow> (False, fs2)
           | (True, fs2) \<Rightarrow>
               (case rename_file fs2 temp_path p of
                  None \<Rightarrow> (False, remove_file fs2 temp_path)
                | Some fs3 \<Rightarrow> (True, fs3))))"

text \<open>
  \<^verbatim>\<open>load_context\<close>: \<^verbatim>\<open>from_json\<close> is called outside any handler, so a file that parses
  but holds a field of the wrong type ends in an exception (\<open>Inl\<close>).
\<close>

definition load_context ::
  "json_lib \<Rightarrow> string \<Rightarrow> filesystem \<Rightarrow> string \<Rightarrow> exn + conversation_state option" where
  "load_context L base fs cid =
     (case read_json L fs (context_path base cid @ ''/conversation.json'') of
        None \<Rightarrow> Inr None
      | Some j \<Rightarrow>
          (case state_from_json j of None \<Rightarrow> Inl json_exception | Some st \<Rightarrow> Inr (Some st)))"

definition save_context ::
  "json_lib \<Rightarrow> string \<Rightarrow> filesystem \<Rightarrow> conversation_state \<Rightarrow> bool \<times> filesystem" where
  "save_context L base fs st =
     (let p = context_path base (c_id st) in
      case ensure_directory fs p of
        (False, fs1) \<Rightarrow> (False, fs1)
      | (True, fs1) \<Rightarrow> write_json L fs1 (p @ ''/conversation.json'') (state_to_json st))"







text \<open>
  \<^verbatim>\<open>save_plan_md\<close>: the plan is written through a stream opened on \<^verbatim>\<open>plan.md\<close> itself;
  afterwards the metadata of the context, when it loads, is given a \<^verbatim>\<open>plan_ref\<close>.
\<close>

definition save_plan_md ::
  "json_lib \<Rightarrow> string \<Rightarrow> string \<Rightarrow> filesystem \<Rightarrow> string \<Rightarrow> string
     \<Rightarrow> (exn + bool) \<times> filesystem" where
  "save_plan_md L base now fs cid content =
     (let p = context_path base cid in
      case ensure_directory fs p of
        (False, fs1) \<Rightarrow> (Inr False, fs1)
      | (True, fs1) \<Rightarrow>
          (case open_out fs1 (p @ ''/plan.md'') of
             None \<Rightarrow> (Inr False, fs1)
           | Some fs2 \<Rightarrow>
               (case write_out fs2 (p @ ''/plan.md'') content of
                  (False, fs3) \<Rightarrow> (Inr False, fs3)
                | (True, fs3) \<Rightarrow>
                    (case load_context L base fs3 cid of
                       Inl x \<Rightarrow> (Inl x, fs3)
                     | Inr None \<Rightarrow> (Inr True, fs3)
                     | Inr (Some st) \<Rightarrow>
                         (case set_key (c_metadata st) ''plan_ref'' (JStr ''plan.md'') of
                            None \<Rightarrow> (Inl json_exception, fs3)
                          | Some md \<Rightarrow>
                              (case save_context L base fs3
                                      (st\<lparr>c_metadata := md, c_updated_at := now\<rparr>) of
                                 (r, fs4) \<Rightarrow> (Inr True, fs4)))))))"

section \<open>Approval of a plan (plan-format.cpp and the /plan command)\<close>






section \<open>Modifications made by a subagent (subagent-manager.cpp)\<close>

text \<open>
  \<^verbatim>\<open>extract_modifications\<close> fills two vectors while it walks the transcript.  The pair of
  vectors is the accumulator of the walk.  Statements outside the \<^verbatim>\<open>try\<close> block can throw
  out of the function (\<open>None\<close>); whatever is thrown inside is caught, and the vectors keep
  what was pushed before.
\<close>

type_synonym modifications = "string list \<times> string list"

definition add_file :: "string \<Rightarrow> string list \<Rightarrow> string list" where
  "add_file path files_modified =
     (if path \<in> set files_modified then files_modified else files_modified @ [path])"

definition truncate_command :: "string \<Rightarrow> string" where
  "truncate_command cmd = (if 200 < length cmd then substr cmd 0 197 @ ''...'' else cmd)"

text \<open>
  The two loops over the fields of a nested result.  \<^verbatim>\<open>get<std::string>()\<close> throws at the
  first element that is not a string; the boolean tells whether the loop reached its end.
\<close>

fun add_nested_files :: "json list \<Rightarrow> string list \<Rightarrow> string list \<times> bool" where
  "add_nested_files [] files_modified = (files_modified, True)"
| "add_nested_files (f # rest) files_modified =
     (case get_string f of
        None \<Rightarrow> (files_modified, False)
      | Some path \<Rightarrow> add_nested_files rest (add_file path files_modified))"

fun add_nested_commands :: "json list \<Rightarrow> string list \<Rightarrow> string list" where
  "add_nested_commands [] commands_run = commands_run"
| "add_nested_commands (c # rest) commands_run =
     (case get_string c of
        None \<Rightarrow> commands_run
      | Some cmd \<Rightarrow> add_nested_commands rest (commands_run @ [cmd]))"

text \<open>The inner \<^verbatim>\<open>try\<close> block: the content of the tool-result message, parsed.\<close>

definition nested_result :: "json_lib \<Rightarrow> string \<Rightarrow> modifications \<Rightarrow> modifications" where
  "nested_result L content acc =
     (case jparse L content of
        None \<Rightarrow> acc
      | Some result_json \<Rightarrow>
          (case (case at_key result_json ''files_modified'' of
                   None \<Rightarrow> (fst acc, True)
                 | Some fl \<Rightarrow> add_nested_files (items fl) (fst acc)) of
             (files_modified, False) \<Rightarrow> (files_modified, snd acc)
           | (files_modified, True) \<Rightarrow>
               (case at_key result_json ''commands_run'' of
                  None \<Rightarrow> (files_modified, snd acc)
                | Some cl \<Rightarrow> (files_modified, add_nested_commands (items cl) (snd acc)))))"

text \<open>
  The search for the tool-result message of a call: \<open>None\<close> when an accessor throws,
  \<open>Some None\<close> when no message matches, otherwise the content of the first match.
\<close>

fun find_tool_result :: "json list \<Rightarrow> string \<Rightarrow> string option option" where
  "find_tool_result [] call_id = Some None"
| "find_tool_result (result_msg # rest) call_id =
     (case value_str result_msg ''role'' [] of
        None \<Rightarrow> None
      | Some role \<Rightarrow>
          if role = ''tool'' then
            (case value_str result_msg ''tool_call_id'' [] of
               None \<Rightarrow> None
             | Some tid \<Rightarrow>
                 if tid = call_id then
                   (case value_str result_msg ''content'' [] of
                      None \<Rightarrow> None
                    | Some content \<Rightarrow> Some (Some content))
                 else find_tool_result rest call_id)
          else find_tool_result rest call_id)"

text \<open>The outer \<^verbatim>\<open>try\<close> block, for one tool call whose name and arguments were read.\<close>

definition handle_call ::
  "json_lib \<Rightarrow> json \<Rightarrow> json \<Rightarrow> string \<Rightarrow> string \<Rightarrow> modifications \<Rightarrow> modifications" where
  "handle_call L messages tc tool_name args_str acc =
     (case jparse L args_str of
        None \<Rightarrow> acc
      | Some args \<Rightarrow>
          if tool_name = ''write'' \<or> tool_name = ''edit'' then
            (case value_str args ''file_path'' [] of
               None \<Rightarrow> acc
             | Some path \<Rightarrow> if path \<noteq> [] then (add_file path (fst acc), snd acc) else acc)
          else if tool_name = ''bash'' then
            (case value_str args ''command'' [] of
               None \<Rightarrow> acc
             | Some cmd \<Rightarrow> if cmd \<noteq> [] then (fst acc, snd acc @ [truncate_command cmd]) else acc)
          else if tool_name = ''spawn_agent'' then
            (case value_str tc ''id'' [] of
               None \<Rightarrow> acc
             | Some call_id \<Rightarrow>
                 (case find_tool_result (items messages) call_id of
                    None \<Rightarrow> acc
                  | Some None \<Rightarrow> acc
                  | Some (Some content) \<Rightarrow> nested_result L content acc))
          else acc)"

definition call_name :: "json \<Rightarrow> string option" where
  "call_name tc = do { fn \<leftarrow> value_json tc ''function'' (JObj []); value_str fn ''name'' [] }"

definition call_arguments :: "json \<Rightarrow> string option" where
  "call_arguments tc =
     do { fn \<leftarrow> value_json tc ''function'' (JObj []); value_str fn ''arguments'' [] }"

definition process_call ::
  "json_lib \<Rightarrow> json \<Rightarrow> json \<Rightarrow> modifications \<Rightarrow> modifications option" where
  "process_call L messages tc acc =
     do {
       tool_name \<leftarrow> call_name tc;
       args_str \<leftarrow> call_arguments tc;
       Some (handle_call L messages tc tool_name args_str acc)
     }"

fun process_calls ::
  "json_lib \<Rightarrow> json \<Rightarrow> json list \<Rightarrow> modifications \<Rightarrow> modifications option" where
  "process_calls L messages [] acc = Some acc"
| "process_calls L messages (tc # rest) acc =
     (case process_call L messages tc acc of
        None \<Rightarrow> None
      | Some acc' \<Rightarrow> process_calls L messages rest acc')"

definition process_message ::
  "json_lib \<Rightarrow> json \<Rightarrow> json \<Rightarrow> modifications \<Rightarrow> modifications option" where
  "process_message L messages msg acc =
     (case value_str msg ''role'' [] of
        None \<Rightarrow> None
      | Some role \<Rightarrow>
          if role = ''assistant'' \<and> contains msg ''tool_calls'' then
            (case at_key msg ''tool_calls'' of
               None \<Rightarrow> None
             | Some tcs \<Rightarrow> process_calls L messages (items tcs) acc)
          else Some acc)"

fun process_messages ::
  "json_lib \<Rightarrow> json \<Rightarrow> json list \<Rightarrow> modifications \<Rightarrow> modifications option" where
  "process_messages L messages [] acc = Some acc"
| "process_messages L messages (msg # rest) acc =
     (case process_message L messages msg acc of
        None \<Rightarrow> None
      | Some acc' \<Rightarrow> process_messages L messages rest acc')"

definition extract_modifications :: "json_lib \<Rightarrow> json \<Rightarrow> modifications option" where
  "extract_modifications L messages = process_messages L messages (items messages) ([], [])"

subsection \<open>What the specification says the extraction yields\<close>

text \<open>
  The specification reads the transcript call by call: a \<^verbatim>\<open>write\<close> or \<^verbatim>\<open>edit\<close> call gives
  its \<^verbatim>\<open>file_path\<close>, a \<^verbatim>\<open>bash\<close> call its \<^verbatim>\<open>command\<close> cut to 200 characters, a
  \<^verbatim>\<open>spawn_agent\<close> call the \<^verbatim>\<open>files_modified\<close> and \<^verbatim>\<open>commands_run\<close> of its tool-result
  message; the files are de-duplicated, the first occurrence of each kept in place.
\<close>

fun dedup_first :: "string list \<Rightarrow> string list" where
  "dedup_first [] = []"
| "dedup_first (x # xs) = x # dedup_first (filter (\<lambda>y. y \<noteq> x) xs)"

text \<open>The tool calls of the transcript, in order.\<close>

definition tool_calls_of :: "json \<Rightarrow> json list" where
  "tool_calls_of msg =
     (if value_str msg ''role'' [] = Some ''assistant''
      then (case at_key msg ''tool_calls'' of None \<Rightarrow> [] | Some tcs \<Rightarrow> items tcs)
      else [])"

definition all_tool_calls :: "json \<Rightarrow> json list" where
  "all_tool_calls messages = concat (map tool_calls_of (items messages))"

text \<open>The strings at the front of a JSON list, up to the first element that is not one.\<close>

fun leading_strings :: "json list \<Rightarrow> string list" where
  "leading_strings [] = []"
| "leading_strings (j # js) =
     (case get_string j of None \<Rightarrow> [] | Some s \<Rightarrow> s # leading_strings js)"

text \<open>The parsed tool-result message of a \<^verbatim>\<open>spawn_agent\<close> call, when there is one.\<close>

definition spawn_result :: "json_lib \<Rightarrow> json \<Rightarrow> json \<Rightarrow> json option" where
  "spawn_result L messages tc =
     (case value_str tc ''id'' [] of
        None \<Rightarrow> None
      | Some call_id \<Rightarrow>
          (case find_tool_result (items messages) call_id of
             Some (Some content) \<Rightarrow> jparse L content
           | _ \<Rightarrow> None))"

definition result_files :: "json \<Rightarrow> string list" where
  "result_files result_json =
     (case at_key result_json ''files_modified'' of
        None \<Rightarrow> []
      | Some fl \<Rightarrow> leading_strings (items fl))"

definition result_commands :: "json \<Rightarrow> string list" where
  "result_commands result_json =
     (case at_key result_json ''files_modified'' of
        None \<Rightarrow>
          (case at_key result_json ''commands_run'' of
             None \<Rightarrow> [] | Some cl \<Rightarrow> leading_strings (items cl))
      | Some fl \<Rightarrow>
          if list_all is_string (items fl)
          then (case at_key result_json ''commands_run'' of
                  None \<Rightarrow> [] | Some cl \<Rightarrow> leading_strings (items cl))
          else [])"

definition parsed_arguments :: "json_lib \<Rightarrow> json \<Rightarrow> json option" where
  "parsed_arguments L tc = (case call_arguments tc of None \<Rightarrow> None | Some s \<Rightarrow> jparse L s)"

definition call_files :: "json_lib \<Rightarrow> json \<Rightarrow> json \<Rightarrow> string list" where
  "call_files L messages tc =
     (case parsed_arguments L tc of
        None \<Rightarrow> []
      | Some args \<Rightarrow>
          if call_name tc = Some ''write'' \<or> call_name tc = Some ''edit'' then
            (case value_str args ''file_path'' [] of
               Some path \<Rightarrow> if path \<noteq> [] then [path] else []
             | None \<Rightarrow> [])
          else if call_name tc = Some ''spawn_agent'' then
            (case spawn_result L messages tc of
               None \<Rightarrow> [] | Some result_json \<Rightarrow> result_files result_json)
          else [])"

definition call_commands :: "json_lib \<Rightarrow> json \<Rightarrow> json \<Rightarrow> string list" where
  "call_commands L messages tc =
     (case parsed_arguments L tc of
        None \<Rightarrow> []
      | Some args \<Rightarrow>
          if call_name tc = Some ''bash'' then
            (case value_str args ''command'' [] of
               Some cmd \<Rightarrow> if cmd \<noteq> [] then [truncate_command cmd] else []
             | None \<Rightarrow> [])
          else if call_name tc = Some ''spawn_agent'' then
            (case spawn_result L messages tc of
               None \<Rightarrow> [] | Some result_json \<Rightarrow> result_commands result_json)
          else [])"

definition spec_files_modified :: "json_lib \<Rightarrow> json \<Rightarrow> string list" where
  "spec_files_modified L messages =
     dedup_first (concat (map (call_files L messages) (all_tool_calls messages)))"

definition spec_commands_run :: "json_lib \<Rightarrow> json \<Rightarrow> string list" where
  "spec_commands_run L messages =
     concat (map (call_commands L messages) (all_tool_calls messages))"

text \<open>
  A transcript as the agent loop builds it: every message is an object with a string role,
  and every tool call of an assistant message has a string name and string arguments.
\<close>

definition well_formed_call :: "json \<Rightarrow> bool" where
  "well_formed_call tc = (call_name tc \<noteq> None \<and> call_arguments tc \<noteq> None)"

definition well_formed_message :: "json \<Rightarrow> bool" where
  "well_formed_message msg =
     (value_str msg ''role'' [] \<noteq> None \<and> list_all well_formed_call (tool_calls_of msg))"

definition well_formed_transcript :: "json \<Rightarrow> bool" where
  "well_formed_transcript messages = list_all well_formed_message (items messages)"

section \<open>Spawning a subagent (subagent-manager.h, subagent-manager.cpp)\<close>

datatype agent_stop_reason = COMPLETED | MAX_ITERATIONS | USER_CANCELLED | AGENT_ERROR

record agent_definition =
  a_name :: string
  a_description :: string
  a_instructions :: string
  a_allowed_tools :: "string list"
  a_max_iterations :: int
  a_metadata :: json
  a_path :: string
  a_agent_dir :: string

text \<open>Of a tool definition, the fields that the prompt of a subagent shows.\<close>

record tool_def =
  t_name :: string
  t_description :: string
  t_signature :: string

record subagent_request =
  r_agent_name :: string
  r_task :: string
  r_context :: json
  r_max_iterations :: int
  r_persist :: bool
  r_spawn_depth :: int
  r_working_dir :: string

text \<open>Of the session statistics, the two counters that the callers of \<^verbatim>\<open>spawn\<close> read.\<close>

record session_stats =
  total_input :: int
  total_output :: int

record subagent_result =
  res_success :: bool
  res_output :: string
  res_artifacts :: json
  res_iterations :: int
  res_stats :: session_stats
  res_error :: string
  res_files_modified :: "string list"
  res_commands_run :: "string list"

text \<open>A default-constructed \<^verbatim>\<open>subagent_result\<close>.\<close>

definition new_result :: subagent_result where
  "new_result =
     \<lparr>res_success = False, res_output = [], res_artifacts = JNull, res_iterations = 0,
      res_stats = \<lparr>total_input = 0, total_output = 0\<rparr>, res_error = [],
      res_files_modified = [], res_commands_run = []\<rparr>"

text \<open>
  The configuration given to the child loop, by the fields that \<^verbatim>\<open>spawn\<close> sets.  The two
  pointers it also sets (the permission manager and the subagent manager itself) are the
  same for every child and are left out; \<open>cfg_persist\<close> stands for the context manager and
  the message callback, which are set together.
\<close>

record agent_config =
  cfg_working_dir :: string
  cfg_max_iterations :: int
  cfg_tool_timeout_ms :: int
  cfg_verbose :: bool
  cfg_yolo_mode :: bool
  cfg_context_base_path :: string
  cfg_allowed_tools :: "string list"
  cfg_persist :: bool
  cfg_context_id :: string

text \<open>What a run of the child loop gives back.\<close>

record loop_outcome =
  lo_stop_reason :: agent_stop_reason
  lo_final_response :: string
  lo_iterations :: int
  lo_stats :: session_stats
  lo_messages :: json

text \<open>
  What \<^verbatim>\<open>spawn\<close> does to the world around it, as a trace: the console frames, the
  clearing of the backend slot, the creation of a context, and the construction and the
  run of a child agent loop.
\<close>

datatype event =
    Push_depth string int
  | Pop_depth int
  | Clear_slot
  | Create_context
  | Construct_loop agent_config
  | Run_loop string

text \<open>The manager: its depth stack (top first), the last transcript, and the trace.\<close>

record subagent_manager =
  spawn_depth_stack :: "int list"
  last_messages :: json
  events :: "event list"

text \<open>
  What the manager refers to and does not change: the JSON library, the agent registry, the
  tool registry, its working directory, the base path of the context manager, the
  directories that exist, the id that \<^verbatim>\<open>create_context\<close> returns, and the behaviour of a
  child loop on a configuration and a prompt (the backend is not part of the repository).
\<close>

record spawn_env =
  env_lib :: json_lib
  env_agents :: "agent_definition list"
  env_tools :: "tool_def list"
  env_working_dir :: string
  env_base_path :: string
  env_dirs :: "string set"
  env_new_context :: string
  env_run :: "agent_config \<Rightarrow> string \<Rightarrow> loop_outcome"

definition MAX_SPAWN_DEPTH :: int where
  "MAX_SPAWN_DEPTH = 3"

definition DEFAULT_TOOL_TIMEOUT_MS :: int where
  "DEFAULT_TOOL_TIMEOUT_MS = 120000"

definition get_agent :: "agent_definition list \<Rightarrow> string \<Rightarrow> agent_definition option" where
  "get_agent agents name = find (\<lambda>agent. a_name agent = name) agents"

definition get_tool :: "tool_def list \<Rightarrow> string \<Rightarrow> tool_def option" where
  "get_tool tools name = find (\<lambda>tool. t_name tool = name) tools"

text \<open>
  \<^verbatim>\<open>resolve_path\<close>, on paths that are already canonical: the empty string signals a path
  that does not exist or is not a directory.
\<close>

definition resolve_path :: "string set \<Rightarrow> string \<Rightarrow> string \<Rightarrow> string" where
  "resolve_path ds path base =
     (let p = (if path = [] \<or> hd path \<noteq> CHR ''/'' then base @ ''/'' @ path else path)
      in if p \<in> ds then p else [])"

definition tool_row :: "tool_def \<Rightarrow> string" where
  "tool_row tool =
     (let short_desc =
            (case find_str ''.'' (t_description tool) of
               Some period_pos \<Rightarrow>
                 if period_pos < 100 then substr (t_description tool) 0 (period_pos + 1)
                 else if 80 < length (t_description tool)
                 then substr (t_description tool) 0 77 @ ''...''
                 else t_description tool
             | None \<Rightarrow>
                 if 80 < length (t_description tool)
                 then substr (t_description tool) 0 77 @ ''...''
                 else t_description tool)
      in ''| '' @ t_name tool @ '' | `'' @ t_signature tool @ ''` | '' @ short_desc @ '' |\<newline>'')"

definition generate_system_prompt :: "tool_def list \<Rightarrow> agent_definition \<Rightarrow> string" where
  "generate_system_prompt tools agent =
     ''You are '' @ a_name agent @ '', a specialized subagent.\<newline>\<newline>''
     @ (if a_instructions agent \<noteq> [] then a_instructions agent @ ''\<newline>\<newline>'' else [])
     @ (if a_allowed_tools agent \<noteq> [] then
          ''# Available Tools\<newline>\<newline>''
          @ ''| Tool | Signature | Description |\<newline>''
          @ ''|------|-----------|-------------|\<newline>''
          @ concat (map (\<lambda>tool_name.
                           case get_tool tools tool_name of
                             None \<Rightarrow> [] | Some tool \<Rightarrow> tool_row tool)
                        (a_allowed_tools agent))
          @ ''\<newline>Use `describe_tool(tool_name)` for full parameter documentation.\<newline>\<newline>''
        else
          ''# No Tools Available\<newline>\<newline>''
          @ ''You do not have access to any tools. Please provide your analysis and response based on the context provided.\<newline>\<newline>'')
     @ ''# Guidelines\<newline>\<newline>''
     @ ''- Focus on completing the task efficiently\<newline>''
     @ ''- Be concise in your responses\<newline>''
     @ ''- When finished, provide a clear summary of what you accomplished\<newline>''"

text \<open>
  \<^verbatim>\<open>extract_artifacts\<close>: the first fenced block of each assistant message, when it parses
  and is not a block of questions, becomes the artifact \<^verbatim>\<open>data\<close>.  The accessors are
  outside the handler (\<open>None\<close>: they throw).
\<close>

definition fenced_json :: "string \<Rightarrow> string option" where
  "fenced_json content =
     (case find_str ''```json'' content of
        None \<Rightarrow> None
      | Some fence_start \<Rightarrow>
          (let json_start0 = fence_start + 7;
               json_start = (if json_start0 < length content \<and> content ! json_start0 = CHR 0x0A
                             then json_start0 + 1 else json_start0)
           in case find_from ''```'' content json_start of
                None \<Rightarrow> None
              | Some json_end \<Rightarrow> Some (substr content json_start (json_end - json_start))))"

fun extract_artifacts_loop :: "json_lib \<Rightarrow> json list \<Rightarrow> json \<Rightarrow> json option" where
  "extract_artifacts_loop L [] artifacts = Some artifacts"
| "extract_artifacts_loop L (msg # rest) artifacts =
     (case value_str msg ''role'' [] of
        None \<Rightarrow> None
      | Some role \<Rightarrow>
          if role = ''assistant'' then
            (case value_str msg ''content'' [] of
               None \<Rightarrow> None
             | Some content \<Rightarrow>
                 (case fenced_json content of
                    None \<Rightarrow> extract_artifacts_loop L rest artifacts
                  | Some json_str \<Rightarrow>
                      (case jparse L json_str of
                         None \<Rightarrow> extract_artifacts_loop L rest artifacts
                       | Some parsed \<Rightarrow>
                           if \<not> contains parsed ''questions'' then
                             (case set_key artifacts ''data'' parsed of
                                None \<Rightarrow> None
                              | Some artifacts' \<Rightarrow> extract_artifacts_loop L rest artifacts')
                           else extract_artifacts_loop L rest artifacts)))
          else extract_artifacts_loop L rest artifacts)"

definition extract_artifacts :: "json_lib \<Rightarrow> json \<Rightarrow> json option" where
  "extract_artifacts L messages = extract_artifacts_loop L (items messages) (JObj [])"

definition stop_error :: "agent_stop_reason \<Rightarrow> string" where
  "stop_error reason =
     (case reason of
        MAX_ITERATIONS \<Rightarrow> ''Subagent reached max iterations''
      | USER_CANCELLED \<Rightarrow> ''Subagent was cancelled''
      | AGENT_ERROR \<Rightarrow> ''Subagent encountered an error''
      | COMPLETED \<Rightarrow> [])"

text \<open>
  \<^verbatim>\<open>spawn\<close>.  The outcome is the result, or the exception that leaves \<^verbatim>\<open>spawn\<close> when one
  of the two extractions throws on the child's transcript.
\<close>

definition spawn ::
  "spawn_env \<Rightarrow> subagent_request \<Rightarrow> subagent_manager
     \<Rightarrow> (exn + subagent_result) \<times> subagent_manager" where
  "spawn env request mgr =
     (if MAX_SPAWN_DEPTH \<le> r_spawn_depth request then
        (Inr (new_result\<lparr>res_error :=
                ''Maximum spawn depth ('' @ to_string MAX_SPAWN_DEPTH
                @ '') exceeded. Cannot spawn more subagents.''\<rparr>), mgr)
      else
        (case get_agent (env_agents env) (r_agent_name request) of
           None \<Rightarrow>
             (Inr (new_result\<lparr>res_error := ''Unknown agent: '' @ r_agent_name request\<rparr>), mgr)
         | Some agent_def \<Rightarrow>
             (let max_iter = (if 0 < r_max_iterations request then r_max_iterations request
                              else a_max_iterations agent_def);
                  mgr1 = mgr\<lparr>events := events mgr
                                 @ [Push_depth (r_agent_name request) max_iter, Clear_slot]
                                 @ (if r_persist request then [Create_context] else []),
                             spawn_depth_stack := (r_spawn_depth request + 1) # spawn_depth_stack mgr\<rparr>;
                  sub_ctx_id = (if r_persist request then env_new_context env else []);
                  sub_working_dir =
                    (if r_working_dir request \<noteq> []
                     then resolve_path (env_dirs env) (r_working_dir request) (env_working_dir env)
                     else env_working_dir env)
              in if r_working_dir request \<noteq> [] \<and> sub_working_dir = [] then
                   (Inr (new_result\<lparr>res_error :=
                           ''working_dir does not exist or is not a directory: ''
                           @ r_working_dir request\<rparr>),
                    mgr1\<lparr>spawn_depth_stack := tl (spawn_depth_stack mgr1),
                         events := events mgr1 @ [Pop_depth 0]\<rparr>)
                 else
                   (let sub_config =
                          \<lparr>cfg_working_dir = sub_working_dir, cfg_max_iterations = max_iter,
                           cfg_tool_timeout_ms = DEFAULT_TOOL_TIMEOUT_MS, cfg_verbose = False,
                           cfg_yolo_mode = False, cfg_context_base_path = env_base_path env,
                           cfg_allowed_tools = a_allowed_tools agent_def,
                           cfg_persist = (r_persist request \<and> sub_ctx_id \<noteq> []),
                           cfg_context_id = (if r_persist request \<and> sub_ctx_id \<noteq> []
                                             then sub_ctx_id else [])\<rparr>;
                        task_prompt =
                          r_task request
                          @ (if \<not> json_empty (r_context request)
                             then ''\<newline>\<newline>## Context\<newline>\<newline>```json\<newline>''
                                  @ jdump (env_lib env) (r_context request) @ ''\<newline>```''
                             else []);
                        full_prompt = generate_system_prompt (env_tools env) agent_def
                                      @ ''\<newline>\<newline># Task\<newline>\<newline>'' @ task_prompt;
                        loop_result = env_run env sub_config full_prompt;
                        mgr2 = mgr1\<lparr>events := events mgr1
                                         @ [Construct_loop sub_config, Run_loop full_prompt],
                                    last_messages := lo_messages loop_result\<rparr>
                    in case extract_artifacts (env_lib env) (lo_messages loop_result) of
                         None \<Rightarrow> (Inl json_exception, mgr2)
                       | Some arts \<Rightarrow>
                           (case extract_modifications (env_lib env) (lo_messages loop_result) of
                              None \<Rightarrow> (Inl json_exception, mgr2)
                            | Some (fm, cr) \<Rightarrow>
                                (Inr \<lparr>res_success = (lo_stop_reason loop_result = COMPLETED),
                                      res_output = lo_final_response loop_result,
                                      res_artifacts = arts,
                                      res_iterations = lo_iterations loop_result,
                                      res_stats = lo_stats loop_result,
                                      res_error = stop_error (lo_stop_reason loop_result),
                                      res_files_modified = fm,
                                      res_commands_run = cr\<rparr>,
                                 mgr2\<lparr>spawn_depth_stack :=
                                        (if spawn_depth_stack mgr2 \<noteq> []
                                         then tl (spawn_depth_stack mgr2)
                                         else spawn_depth_stack mgr2),
                                      events := events mgr2
                                        @ [Clear_slot, Pop_depth (lo_iterations loop_result)]\<rparr>))))))"

text \<open>\<^verbatim>\<open>get_current_spawn_depth\<close>, which the \<^verbatim>\<open>spawn_agent\<close> tool passes on as the depth.\<close>

definition get_current_spawn_depth :: "subagent_manager \<Rightarrow> int" where
  "get_current_spawn_depth mgr =
     (case spawn_depth_stack mgr of [] \<Rightarrow> 0 | depth # _ \<Rightarrow> depth)"

text \<open>Whether the trace records the construction of a child agent loop.\<close>

definition constructs_loop :: "event list \<Rightarrow> bool" where
  "constructs_loop es = list_ex (\<lambda>e. case e of Construct_loop _ \<Rightarrow> True | _ \<Rightarrow> False) es"

section \<open>Discovery of agent definitions (agent-registry.h, agent-registry.cpp)\<close>

text \<open>
  The registry holds the vector \<^verbatim>\<open>agents_\<close> and the map \<^verbatim>\<open>embedded_agents_\<close>.  A
  \<^verbatim>\<open>std::map\<close> is an association list with distinct keys, read in the order of its keys.
\<close>

record agent_registry =
  agents :: "agent_definition list"
  embedded_agents :: "(string \<times> agent_definition) list"

text \<open>
  What \<^verbatim>\<open>discover\<close> sees of a search path: it does not exist, it exists and cannot be
  iterated (\<^verbatim>\<open>directory_iterator\<close> throws), or it lists entries, each with its path and
  whether it is a directory.
\<close>

datatype dir_view = Absent | Not_a_directory | Listing "(string \<times> bool) list"

text \<open>
  The loop over the entries of one search path.  \<open>parse_agent\<close> is the function of that
  name, applied to the path of an entry: it gives the definition parsed from the
  \<^verbatim>\<open>AGENT.md\<close> of that directory, if there is a valid one.
\<close>

fun scan_entries ::
  "(string \<Rightarrow> agent_definition option) \<Rightarrow> (string \<times> agent_definition) list
     \<Rightarrow> (string \<times> bool) list \<Rightarrow> (string \<times> agent_definition) list
     \<Rightarrow> (string \<times> agent_definition) list" where
  "scan_entries parse_agent embedded [] agents_by_name = agents_by_name"
| "scan_entries parse_agent embedded ((path, is_directory) # rest) agents_by_name =
     (if \<not> is_directory then scan_entries parse_agent embedded rest agents_by_name
      else
        (case parse_agent path of
           None \<Rightarrow> scan_entries parse_agent embedded rest agents_by_name
         | Some agent \<Rightarrow>
             if map_of embedded (a_name agent) \<noteq> None
             then scan_entries parse_agent embedded rest agents_by_name
             else scan_entries parse_agent embedded rest
                    (AList.update (a_name agent) agent agents_by_name)))"

text \<open>The loop over the search paths, which the caller passes in reverse.\<close>

fun scan_paths ::
  "(string \<Rightarrow> dir_view) \<Rightarrow> (string \<Rightarrow> agent_definition option)
     \<Rightarrow> (string \<times> agent_definition) list \<Rightarrow> string list
     \<Rightarrow> (string \<times> agent_definition) list \<Rightarrow> (string \<times> agent_definition) list option" where
  "scan_paths view parse_agent embedded [] agents_by_name = Some agents_by_name"
| "scan_paths view parse_agent embedded (search_path # rest) agents_by_name =
     (case view search_path of
        Absent \<Rightarrow> scan_paths view parse_agent embedded rest agents_by_name
      | Not_a_directory \<Rightarrow> None
      | Listing entries \<Rightarrow>
          scan_paths view parse_agent embedded rest
            (scan_entries parse_agent embedded entries agents_by_name))"

definition discover ::
  "(string \<Rightarrow> dir_view) \<Rightarrow> (string \<Rightarrow> agent_definition option) \<Rightarrow> string list
     \<Rightarrow> agent_registry \<Rightarrow> exn + int \<times> agent_registry" where
  "discover view parse_agent search_paths reg =
     (case scan_paths view parse_agent (embedded_agents reg) (rev search_paths) [] of
        None \<Rightarrow> Inl filesystem_error
      | Some disk_agents \<Rightarrow>
          (let agents_by_name =
                 fold (\<lambda>(name, def) m. AList.update name def m)
                      (sort_key fst (embedded_agents reg)) disk_agents;
               sorted_agents = sort_key a_name (map snd (sort_key fst agents_by_name))
           in Inr (to_int32 (int (length sorted_agents)), reg\<lparr>agents := sorted_agents\<rparr>)))"

subsection \<open>The precedence rule of the specification\<close>

text \<open>
  The definitions found on disk, in the order in which the specification applies them:
  search paths from the lowest to the highest priority (the last of the vector first), and
  within a path the entries as listed.
\<close>

definition dir_agents ::
  "(string \<Rightarrow> agent_definition option) \<Rightarrow> (string \<times> bool) list \<Rightarrow> agent_definition list" where
  "dir_agents parse_agent entries =
     List.map_filter (\<lambda>(path, is_directory). if is_directory then parse_agent path else None)
       entries"

definition path_agents ::
  "(string \<Rightarrow> dir_view) \<Rightarrow> (string \<Rightarrow> agent_definition option) \<Rightarrow> string
     \<Rightarrow> agent_definition list" where
  "path_agents view parse_agent search_path =
     (case view search_path of Listing entries \<Rightarrow> dir_agents parse_agent entries | _ \<Rightarrow> [])"

definition found_agents ::
  "(string \<Rightarrow> dir_view) \<Rightarrow> (string \<Rightarrow> agent_definition option) \<Rightarrow> string list
     \<Rightarrow> agent_definition list" where
  "found_agents view parse_agent search_paths =
     concat (map (path_agents view parse_agent) (rev search_paths))"

text \<open>The definition of a name that is applied last, which is the one that stays.\<close>

definition latest :: "string \<Rightarrow> agent_definition list \<Rightarrow> agent_definition option" where
  "latest name defs = find (\<lambda>agent. a_name agent = name) (rev defs)"

text \<open>
  A map from names to definitions as \<^verbatim>\<open>std::map\<close> keeps it and as the registry fills it:
  the keys are distinct and each definition is stored under its own name.
\<close>

definition keyed :: "(string \<times> agent_definition) list \<Rightarrow> bool" where
  "keyed al = (distinct (map fst al) \<and> (\<forall>(k, d)\<in>set al. a_name d = k))"

section \<open>Questions of the planning agent (plan-questions.h, plan-questions.cpp, the /plan command)\<close>

record plan_question =
  q_id :: int
  q_text :: string
  q_options :: "string list"
  q_selected_answer :: string
  q_is_custom :: bool
  q_selected_option_index :: int

record qa_session =
  questions :: "plan_question list"
  current_question_index :: int

text \<open>A default-constructed question and session.\<close>

definition new_question :: plan_question where
  "new_question =
     \<lparr>q_id = 0, q_text = [], q_options = [], q_selected_answer = [], q_is_custom = False,
      q_selected_option_index = - 1\<rparr>"

definition new_qa_session :: qa_session where
  "new_qa_session = \<lparr>questions = [], current_question_index = 0\<rparr>"

text \<open>The strings among the elements of an array of options.\<close>

definition string_options :: "json \<Rightarrow> string list" where
  "string_options arr = List.map_filter get_string (items arr)"

text \<open>
  The body of the loop of \<^verbatim>\<open>parse_questions_from_json\<close> for one element and the running
  id: the question built, or \<open>None\<close> when an accessor throws.
\<close>

definition question_text :: "json \<Rightarrow> string option" where
  "question_text qj =
     (if contains qj ''text'' then
        (case at_key qj ''text'' of None \<Rightarrow> None | Some v \<Rightarrow> get_string v)
      else if contains qj ''question'' then
        (case at_key qj ''question'' of None \<Rightarrow> None | Some v \<Rightarrow> get_string v)
      else Some [])"

definition question_options :: "json \<Rightarrow> string list" where
  "question_options qj =
     (case at_key qj ''options'' of
        Some (JArr opts) \<Rightarrow> string_options (JArr opts)
      | _ \<Rightarrow>
          (case at_key qj ''answers'' of
             Some (JArr opts) \<Rightarrow> string_options (JArr opts)
           | _ \<Rightarrow> []))"

definition question_of :: "int \<Rightarrow> json \<Rightarrow> plan_question option" where
  "question_of next_id qj =
     do {
       i \<leftarrow> value_int qj ''id'' next_id;
       t \<leftarrow> question_text qj;
       Some (new_question\<lparr>q_id := i, q_text := t, q_options := question_options qj\<rparr>)
     }"

fun questions_loop :: "int \<Rightarrow> json list \<Rightarrow> plan_question list \<Rightarrow> plan_question list option" where
  "questions_loop next_id [] acc = Some acc"
| "questions_loop next_id (qj # rest) acc =
     (case question_of next_id qj of
        None \<Rightarrow> None
      | Some q \<Rightarrow>
          questions_loop (next_id + 1) rest
            (if q_text q \<noteq> [] \<and> q_options q \<noteq> [] then acc @ [q] else acc))"

definition parse_questions_from_json :: "json \<Rightarrow> qa_session option" where
  "parse_questions_from_json agent_output =
     (case (case at_key agent_output ''questions'' of
              Some (JArr qs) \<Rightarrow> Some (JArr qs)
            | _ \<Rightarrow> (if is_array agent_output then Some agent_output else None)) of
        None \<Rightarrow> Some new_qa_session
      | Some questions_array \<Rightarrow>
          (case questions_loop 1 (items questions_array) [] of
             None \<Rightarrow> None
           | Some qs \<Rightarrow> Some (new_qa_session\<lparr>questions := qs\<rparr>)))"

text \<open>The first strategy of \<^verbatim>\<open>extract_questions\<close>: the fence, then its content, trimmed.\<close>

definition is_blank :: "char \<Rightarrow> bool" where
  "is_blank c = (c = CHR 0x0A \<or> c = CHR 0x0D \<or> c = CHR '' '')"

definition fence_start :: "string \<Rightarrow> nat option" where
  "fence_start agent_output =
     (case find_str ''```json'' agent_output of
        Some i \<Rightarrow> Some i
      | None \<Rightarrow> find_str ''```JSON'' agent_output)"

definition fenced_text :: "string \<Rightarrow> string" where
  "fenced_text agent_output =
     (case fence_start agent_output of
        None \<Rightarrow> []
      | Some fs \<Rightarrow>
          (let after = drop (fs + 7) agent_output;
               content_start = fs + 7 + length (takeWhile is_blank after)
           in case find_from ''```'' agent_output content_start of
                None \<Rightarrow> []
              | Some content_end \<Rightarrow>
                  rev (dropWhile is_blank
                         (rev (substr agent_output content_start (content_end - content_start))))))"

text \<open>
  The second strategy: the scan for the closing brace.  The arguments after the remaining
  characters are the position \<^verbatim>\<open>i\<close>, \<^verbatim>\<open>brace_count\<close>, \<^verbatim>\<open>in_string\<close> and
  \<^verbatim>\<open>escape_next\<close>; the result is the position at which the count returns to zero.
\<close>

fun brace_scan :: "string \<Rightarrow> nat \<Rightarrow> int \<Rightarrow> bool \<Rightarrow> bool \<Rightarrow> nat option" where
  "brace_scan [] i brace_count in_string escape_next = None"
| "brace_scan (c # cs) i brace_count in_string escape_next =
     (if escape_next then brace_scan cs (i + 1) brace_count in_string False
      else if c = CHR 0x5C \<and> in_string then brace_scan cs (i + 1) brace_count in_string True
      else if c = CHR 0x22 then brace_scan cs (i + 1) brace_count (\<not> in_string) False
      else if \<not> in_string then
        (if c = CHR ''{'' then brace_scan cs (i + 1) (brace_count + 1) in_string False
         else if c = CHR ''}'' then
           (if brace_count - 1 = 0 then Some i
            else brace_scan cs (i + 1) (brace_count - 1) in_string False)
         else brace_scan cs (i + 1) brace_count in_string False)
      else brace_scan cs (i + 1) brace_count in_string False)"

definition inline_text :: "string \<Rightarrow> string" where
  "inline_text agent_output =
     (case find_str ''{\"questions\"'' agent_output of
        None \<Rightarrow> []
      | Some direct_start \<Rightarrow>
          (case brace_scan (drop direct_start agent_output) direct_start 0 False False of
             None \<Rightarrow> []
           | Some i \<Rightarrow> substr agent_output direct_start (i - direct_start + 1)))"

definition questions_text :: "string \<Rightarrow> string" where
  "questions_text agent_output =
     (if fenced_text agent_output \<noteq> [] then fenced_text agent_output
      else inline_text agent_output)"

definition extract_questions :: "json_lib \<Rightarrow> string \<Rightarrow> qa_session" where
  "extract_questions L agent_output =
     (let json_str = questions_text agent_output in
      if json_str \<noteq> [] then
        (case jparse L json_str of
           None \<Rightarrow> new_qa_session
         | Some j \<Rightarrow>
             (case parse_questions_from_json j of
                None \<Rightarrow> new_qa_session
              | Some qa \<Rightarrow> qa))
      else new_qa_session)"

subsection \<open>Text with matched braces\<close>

text \<open>
  The inside of a string literal: characters other than the quote and the backslash, and
  backslashes each followed by one character.
\<close>

inductive string_body :: "string \<Rightarrow> bool" where
  sb_end: "string_body []"
| sb_char: "c \<noteq> CHR 0x22 \<Longrightarrow> c \<noteq> CHR 0x5C \<Longrightarrow> string_body w \<Longrightarrow> string_body (c # w)"
| sb_escape: "string_body w \<Longrightarrow> string_body (CHR 0x5C # c # w)"

text \<open>
  Text in which every brace outside a string literal is matched: plain characters, string
  literals, and groups in braces.
\<close>

inductive balanced :: "string \<Rightarrow> bool" where
  b_end: "balanced []"
| b_char: "c \<noteq> CHR ''{'' \<Longrightarrow> c \<noteq> CHR ''}'' \<Longrightarrow> c \<noteq> CHR 0x22 \<Longrightarrow> balanced w \<Longrightarrow> balanced (c # w)"
| b_string: "string_body b \<Longrightarrow> balanced w \<Longrightarrow> balanced (CHR 0x22 # b @ CHR 0x22 # w)"
| b_group: "balanced u \<Longrightarrow> balanced w \<Longrightarrow> balanced (CHR ''{'' # u @ CHR ''}'' # w)"

text \<open>A question object in which the aliases are replaced by the primary keys.\<close>

definition primary_key :: "string \<Rightarrow> string" where
  "primary_key k = (if k = ''question'' then ''text'' else if k = ''answers'' then ''options'' else k)"

definition with_primary_keys :: "(string \<times> json) list \<Rightarrow> (string \<times> json) list" where
  "with_primary_keys kvs = map (\<lambda>(k, v). (primary_key k, v)) kvs"

section \<open>A serialiser for the examples\<close>

text \<open>
  The theorems below hold for every \<open>json_lib\<close>.  Where an example needs a concrete one,
  it writes values with \<open>compact_dump\<close> (JSON text without white space; a number with a
  fractional part does not occur in the examples and is written by its integer part) and
  reads through a table of the texts that occur in it; every other text counts as malformed.
\<close>

fun escape_char :: "char \<Rightarrow> string" where
  "escape_char c =
     (if c = CHR 0x22 then [CHR 0x5C, CHR 0x22]
      else if c = CHR 0x5C then [CHR 0x5C, CHR 0x5C]
      else if c = CHR 0x0A then [CHR 0x5C, CHR ''n'']
      else [c])"

definition quote :: "string \<Rightarrow> string" where
  "quote s = CHR 0x22 # concat (map escape_char s) @ [CHR 0x22]"

fun join :: "string \<Rightarrow> string list \<Rightarrow> string" where
  "join sep [] = []"
| "join sep [x] = x"
| "join sep (x # y # ys) = x @ sep @ join sep (y # ys)"

fun compact_dump :: "json \<Rightarrow> string" where
  "compact_dump JNull = ''null''"
| "compact_dump (JBool b) = (if b then ''true'' else ''false'')"
| "compact_dump (JInt i) = to_string i"
| "compact_dump (JFloat r) = to_string (if 0 \<le> r then \<lfloor>r\<rfloor> else \<lceil>r\<rceil>)"
| "compact_dump (JStr s) = quote s"
| "compact_dump (JArr xs) = ''['' @ join '','' (map compact_dump xs) @ '']''"
| "compact_dump (JObj kvs) =
     ''{'' @ join '','' (map (\<lambda>kv. quote (fst kv) @ '':'' @ compact_dump (snd kv)) kvs) @ ''}''"

definition table_lib :: "(string \<times> json) list \<Rightarrow> json_lib" where
  "table_lib texts = \<lparr>jparse = map_of texts, jdump = compact_dump\<rparr>"

text \<open>A disk on which nothing is refused, given by its files and its directories.\<close>

definition disk :: "(string \<times> string) list \<Rightarrow> string list \<Rightarrow> filesystem" where
  "disk fl ds =
     \<lparr>files = map_of fl, dirs = set ds, read_denied = {}, open_denied = {},
      write_limit = Map.empty, mkdir_denied = {}, rename_denied = {}\<rparr>"








text \<open>
  A transcript of a child agent: two calls that touch \<^verbatim>\<open>/a\<close>, a shell command, and a nested
  \<^verbatim>\<open>spawn_agent\<close> call whose tool result reports \<^verbatim>\<open>/b\<close>, \<^verbatim>\<open>/a\<close> and a command.
\<close>

definition tool_call :: "string \<Rightarrow> string \<Rightarrow> string \<Rightarrow> json" where
  "tool_call call_id name arguments =
     JObj [(''id'', JStr call_id), (''type'', JStr ''function''),
           (''function'', JObj [(''name'', JStr name), (''arguments'', JStr arguments)])]"

definition example_transcript :: json where
  "example_transcript =
     JArr [JObj [(''role'', JStr ''system''), (''content'', JStr ''You are a subagent'')],
           JObj [(''role'', JStr ''assistant''), (''content'', JStr ''''),
                 (''tool_calls'',
                  JArr [tool_call ''1'' ''write'' ''{\"file_path\":\"/a\"}'',
                        tool_call ''2'' ''bash'' ''{\"command\":\"ls\"}'',
                        tool_call ''3'' ''edit'' ''{\"file_path\":\"/a\"}'',
                        tool_call ''4'' ''spawn_agent'' ''{\"agent_name\":\"x\"}''])],
           JObj [(''role'', JStr ''tool''), (''tool_call_id'', JStr ''4''),
                 (''content'',
                  JStr ''{\"files_modified\":[\"/b\",\"/a\"],\"commands_run\":[\"make\"]}'')]]"

definition transcript_lib :: json_lib where
  "transcript_lib =
     table_lib
       [(''{\"file_path\":\"/a\"}'', JObj [(''file_path'', JStr ''/a'')]),
        (''{\"command\":\"ls\"}'', JObj [(''command'', JStr ''ls'')]),
        (''{\"agent_name\":\"x\"}'', JObj [(''agent_name'', JStr ''x'')]),
        (''{\"files_modified\":[\"/b\",\"/a\"],\"commands_run\":[\"make\"]}'',
         JObj [(''files_modified'', JArr [JStr ''/b'', JStr ''/a'']),
               (''commands_run'', JArr [JStr ''make''])])]"

text \<open>
  A manager's surroundings with one agent and a child loop that answers at once, and a
  manager inside three nested spawns.
\<close>

definition example_agent :: agent_definition where
  "example_agent =
     \<lparr>a_name = ''explorer-agent'', a_description = ''explores'', a_instructions = ''Explore.'',
      a_allowed_tools = [], a_max_iterations = 20, a_metadata = JObj [],
      a_path = ''<embedded>/explorer-agent'', a_agent_dir = ''<embedded>''\<rparr>"

definition example_env :: spawn_env where
  "example_env =
     \<lparr>env_lib = table_lib [], env_agents = [example_agent], env_tools = [],
      env_working_dir = ''/w'', env_base_path = ''d'', env_dirs = {''/w''},
      env_new_context = ''c2'',
      env_run = (\<lambda>cfg prompt.
         \<lparr>lo_stop_reason = COMPLETED, lo_final_response = ''done'', lo_iterations = 1,
          lo_stats = \<lparr>total_input = 10, total_output = 2\<rparr>, lo_messages = JArr []\<rparr>)\<rparr>"

definition example_request :: "int \<Rightarrow> subagent_request" where
  "example_request depth =
     \<lparr>r_agent_name = ''explorer-agent'', r_task = ''look around'', r_context = JObj [],
      r_max_iterations = 20, r_persist = False, r_spawn_depth = depth, r_working_dir = []\<rparr>"

definition nested_manager :: subagent_manager where
  "nested_manager = \<lparr>spawn_depth_stack = [3, 2, 1], last_messages = JNull, events = []\<rparr>"

text \<open>
  Three search paths as \<^verbatim>\<open>main\<close> passes them (data directory, project, user): the data
  directory does not exist; the project defines \<^verbatim>\<open>linter\<close> and, in vain,
  \<^verbatim>\<open>explorer-agent\<close>; the user defines \<^verbatim>\<open>linter\<close> too.
\<close>

definition disk_agent :: "string \<Rightarrow> string \<Rightarrow> agent_definition" where
  "disk_agent name dir =
     \<lparr>a_name = name, a_description = ''from disk'', a_instructions = [],
      a_allowed_tools = [''read''], a_max_iterations = 20, a_metadata = JObj [],
      a_path = dir @ ''/AGENT.md'', a_agent_dir = dir\<rparr>"

definition example_view :: "string \<Rightarrow> dir_view" where
  "example_view p =
     (if p = ''proj/agents''
      then Listing [(''proj/agents/linter'', True), (''proj/agents/explorer-agent'', True),
                    (''proj/agents/README.md'', False)]
      else if p = ''home/agents'' then Listing [(''home/agents/linter'', True)]
      else Absent)"

definition example_parse :: "string \<Rightarrow> agent_definition option" where
  "example_parse =
     map_of [(''proj/agents/linter'', disk_agent ''linter'' ''proj/agents/linter''),
             (''proj/agents/explorer-agent'',
              disk_agent ''explorer-agent'' ''proj/agents/explorer-agent''),
             (''home/agents/linter'', disk_agent ''linter'' ''home/agents/linter'')]"

definition example_registry :: agent_registry where
  "example_registry = \<lparr>agents = [], embedded_agents = [(''explorer-agent'', example_agent)]\<rparr>"

text \<open>
  A reply of the planning agent that ends with the questions block of the planning prompt,
  opened by the given fence, and a library that reads that block.
\<close>

definition questions_block :: string where
  "questions_block =
     ''{\<newline>  \"questions\": [\<newline>    {\<newline>      \"id\": 1,\<newline>''
     @ ''      \"text\": \"Which approach do you prefer?\",\<newline>''
     @ ''      \"options\": [\"Option A\", \"Option B\", \"Option C\"]\<newline>''
     @ ''    }\<newline>  ]\<newline>}''"

definition questions_value :: json where
  "questions_value =
     JObj [(''questions'',
            JArr [JObj [(''id'', JInt 1), (''text'', JStr ''Which approach do you prefer?''),
                        (''options'', json_strings [''Option A'', ''Option B'', ''Option C''])]])]"

definition fenced_reply :: "string \<Rightarrow> string" where
  "fenced_reply fence =
     ''## Plan\<newline>\<newline>1. Add the table.\<newline>\<newline>'' @ fence @ ''\<newline>''
     @ questions_block @ ''\<newline>```\<newline>''"

definition questions_lib :: json_lib where
  "questions_lib =
     table_lib [(questions_block, questions_value), (''{\"questions\":[]}'', JObj [(''questions'', JArr [])])]"

definition example_question :: plan_question where
  "example_question =
     \<lparr>q_id = 1, q_text = ''Which approach do you prefer?'',
      q_options = [''Option A'', ''Option B'', ''Option C''], q_selected_answer = [],
      q_is_custom = False, q_selected_option_index = - 1\<rparr>"
section \<open>Theorems\<close>

subsection \<open>Agent names\<close>

lemma name_loop_append:
  "name_loop p (u @ v) \<Longrightarrow> name_loop p u"
  by (induction u arbitrary: p) (auto split: if_splits)

lemma name_loop_chars:
  "name_loop p s \<Longrightarrow> list_all (\<lambda>c. c = CHR ''-'' \<or> islower c \<or> isdigit c) s"
  by (induction s arbitrary: p) (auto split: if_splits)

lemma hyphen_not_alnum: "\<not> (islower (CHR ''-'') \<or> isdigit (CHR ''-''))"
  by (simp add: islower_def isdigit_def)

lemma name_loop_alnum:
  "list_all (\<lambda>c. islower c \<or> isdigit c) w \<Longrightarrow> name_loop p w"
  using hyphen_not_alnum by (induction w arbitrary: p) auto

lemma name_loop_split:
  "name_loop p (u @ v) = (name_loop p u \<and> name_loop (if u = [] then p else last u = CHR ''-'') v)"
  by (induction u arbitrary: p) (auto split: if_splits)

lemma alnum_run_no_hyphen: "alnum_run w \<Longrightarrow> CHR ''-'' \<notin> set w"
  using hyphen_not_alnum by (auto simp: alnum_run_def list_all_iff)

lemma alnum_run_ends: "alnum_run w \<Longrightarrow> hd w \<noteq> CHR ''-'' \<and> last w \<noteq> CHR ''-''"
proof -
  assume a: "alnum_run w"
  then have ne: "w \<noteq> []" by (simp add: alnum_run_def)
  have "hd w \<in> set w" "last w \<in> set w" using ne by simp_all
  then show ?thesis using alnum_run_no_hyphen[OF a] by metis
qed

lemma list_all_drop_alt:
  "list_all (\<lambda>c. c = h \<or> P c) s \<Longrightarrow> h \<notin> set s \<Longrightarrow> list_all P s"
  by (induction s) auto

lemma pattern_imp_loop:
  "name_pattern s \<Longrightarrow> name_loop False s \<and> s \<noteq> [] \<and> hd s \<noteq> CHR ''-'' \<and> last s \<noteq> CHR ''-''"
proof (induction rule: name_pattern.induct)
  case (run w)
  then show ?case using alnum_run_ends[of w] by (simp add: alnum_run_def name_loop_alnum)
next
  case (group u w)
  have w: "w \<noteq> []" "name_loop True w" "last w \<noteq> CHR ''-''"
    using group.hyps(2) alnum_run_ends[of w] by (simp_all add: alnum_run_def name_loop_alnum)
  have "name_loop False (u @ CHR ''-'' # w)"
    using group.IH w by (simp add: name_loop_split)
  then show ?case using group.IH w by simp
qed

lemma loop_imp_pattern:
  "name_loop False s \<Longrightarrow> s \<noteq> [] \<Longrightarrow> hd s \<noteq> CHR ''-'' \<Longrightarrow> last s \<noteq> CHR ''-'' \<Longrightarrow> name_pattern s"
proof (induction "length s" arbitrary: s rule: less_induct)
  case less
  show ?case
  proof (cases "CHR ''-'' \<in> set s")
    case False
    have "list_all (\<lambda>c. islower c \<or> isdigit c) s"
      using name_loop_chars[OF less.prems(1)] False by (rule list_all_drop_alt)
    then show ?thesis using less.prems(2) by (simp add: name_pattern.run alnum_run_def)
  next
    case True
    then have "\<exists>u w. s = u @ CHR ''-'' # w \<and> CHR ''-'' \<notin> set w"
      by (rule split_list_last)
    then obtain u w where s: "s = u @ CHR ''-'' # w" and w: "CHR ''-'' \<notin> set w"
      by auto
    have wne: "w \<noteq> []" using less.prems(4) s by auto
    have une: "u \<noteq> []" using less.prems(3) s by (cases u) auto
    have lu: "name_loop False u" using less.prems(1) name_loop_append unfolding s by metis
    have lastu: "last u \<noteq> CHR ''-''"
      using less.prems(1) une unfolding s name_loop_split by (auto split: if_splits)
    have hdu: "hd u \<noteq> CHR ''-''" using less.prems(3) une s by (cases u) auto
    have "length u < length s" using s by simp
    then have pu: "name_pattern u" using lu une hdu lastu by (rule less.hyps)
    have "list_all (\<lambda>c. c = CHR ''-'' \<or> islower c \<or> isdigit c) w"
      using name_loop_chars[OF less.prems(1)] s by simp
    then have "list_all (\<lambda>c. islower c \<or> isdigit c) w" using w by (rule list_all_drop_alt)
    then have "alnum_run w" using wne by (simp add: alnum_run_def)
    with pu show ?thesis unfolding s by (rule name_pattern.group)
  qed
qed

text \<open>
  Claim C8.  \<^verbatim>\<open>validate_name\<close> accepts exactly the strings of the pattern
  \<^verbatim>\<open>^[a-z0-9]+(-[a-z0-9]+)*$\<close> whose length lies between 1 and 64; the names
  \<^verbatim>\<open>a\<close>, \<^verbatim>\<open>a-b\<close>, \<^verbatim>\<open>a1-b2\<close> pass, and \<^verbatim>\<open>-a\<close>, \<^verbatim>\<open>a-\<close>, \<^verbatim>\<open>a--b\<close>,
  \<^verbatim>\<open>A\<close>, \<^verbatim>\<open>a_b\<close> and every string of 65 characters fail.
\<close>

theorem validate_name_pattern:
  "(validate_name s \<longleftrightarrow> name_pattern s \<and> 1 \<le> length s \<and> length s \<le> 64)
   \<and> validate_name ''a'' \<and> validate_name ''a-b'' \<and> validate_name ''a1-b2''
   \<and> \<not> validate_name ''-a'' \<and> \<not> validate_name ''a-'' \<and> \<not> validate_name ''a--b''
   \<and> \<not> validate_name ''A'' \<and> \<not> validate_name ''a_b''
   \<and> (length s = 65 \<longrightarrow> \<not> validate_name s)"
proof -
  have A: "validate_name s \<longleftrightarrow> name_pattern s \<and> 1 \<le> length s \<and> length s \<le> 64"
  proof
    assume v: "validate_name s"
    then have "s \<noteq> []" "length s \<le> 64" "hd s \<noteq> CHR ''-''" "last s \<noteq> CHR ''-''" "name_loop False s"
      by (auto simp: validate_name_def split: if_splits)
    then show "name_pattern s \<and> 1 \<le> length s \<and> length s \<le> 64"
      using loop_imp_pattern[of s] by (cases s) auto
  next
    assume "name_pattern s \<and> 1 \<le> length s \<and> length s \<le> 64"
    then show "validate_name s"
      using pattern_imp_loop[of s] by (auto simp: validate_name_def)
  qed
  have B: "validate_name ''a'' \<and> validate_name ''a-b'' \<and> validate_name ''a1-b2''"
    by (simp add: validate_name_def islower_def isdigit_def)
  have C: "\<not> validate_name ''-a'' \<and> \<not> validate_name ''a-'' \<and> \<not> validate_name ''a--b''
   \<and> \<not> validate_name ''A'' \<and> \<not> validate_name ''a_b''"
    by (simp add: validate_name_def islower_def isdigit_def)
  have D: "length s = 65 \<longrightarrow> \<not> validate_name s"
    by (simp add: validate_name_def)
  show ?thesis using A B C D by (intro conjI) simp_all
qed

theorem validate_name_pattern_witness:
  "name_pattern ''explorer-agent'' \<and> \<not> name_pattern ''a--b''
   \<and> \<not> validate_name (replicate 65 (CHR ''a''))"
proof -
  have 1: "validate_name ''explorer-agent''"
    by (simp add: validate_name_def islower_def isdigit_def)
  have 2: "\<not> validate_name ''a--b''"
    by (simp add: validate_name_def islower_def isdigit_def)
  have 3: "length (replicate 65 (CHR ''a'')) = 65"
    by (rule length_replicate)
  note t1 = validate_name_pattern[of "''explorer-agent''", THEN conjunct1]
  note t2 = validate_name_pattern[of "''a--b''", THEN conjunct1]
  note t3 = validate_name_pattern[of "replicate 65 (CHR ''a'')", THEN conjunct2, THEN conjunct2,
      THEN conjunct2, THEN conjunct2, THEN conjunct2, THEN conjunct2, THEN conjunct2,
      THEN conjunct2, THEN conjunct2]
  have a: "name_pattern ''explorer-agent''"
    using t1 1 by simp
  have b: "\<not> name_pattern ''a--b''"
    using t2 2 by simp
  have c: "\<not> validate_name (replicate 65 (CHR ''a''))"
    using t3 3 by (rule mp)
  show ?thesis using a b c by (intro conjI)
qed
subsection \<open>The planning state machine\<close>



lemma state_path_update [simp]:
  "get_state_path (m\<lparr>session := (session m)\<lparr>s_state := x, s_updated_at := y\<rparr>\<rparr>) = get_state_path m"
  by (simp add: get_state_path_def)




lemma string_to_state_unknown:
  "s \<notin> set state_strings \<Longrightarrow> string_to_state s = IDLE"
  by (simp add: string_to_state_def state_strings_def)

lemma session_from_json_state:
  assumes "session_from_json j = Some s"
  shows "\<exists>st. value_str j ''state'' ''idle'' = Some st \<and> s_state s = string_to_state st"
  using assms
  by (auto simp: session_from_json_def Option.bind_eq_Some_conv)

lemma value_str_state:
  assumes "\<forall>s\<in>set state_strings. at_key j ''state'' \<noteq> Some (JStr s)"
      and "value_str j ''state'' ''idle'' = Some st"
  shows "string_to_state st = IDLE"
proof (cases "st \<in> set state_strings")
  case False
  then show ?thesis by (rule string_to_state_unknown)
next
  case True
  with assms(1) have ne: "at_key j ''state'' \<noteq> Some (JStr st)" by simp
  from assms(2) obtain kvs where j: "j = JObj kvs"
    by (cases j) (simp_all add: value_str_def)
  show ?thesis
  proof (cases "map_of kvs ''state''")
    case None
    with assms(2) j have "st = ''idle''" by (simp add: value_str_def)
    then show ?thesis by (simp add: string_to_state_def)
  next
    case (Some v)
    with assms(2) j have "v = JStr st"
      by (cases v) (simp_all add: value_str_def get_string_def)
    with Some j ne show ?thesis by (simp add: at_key_def)
  qed
qed

lemma load_state:
  assumes "\<forall>s\<in>set state_strings. at_key j ''state'' \<noteq> Some (JStr s)"
      and "files fs (context_path (ctx_base_path m) cid @ ''/plan_state.json'') = Some tx"
      and "jparse L tx = Some j"
  shows "s_state (session (snd (load L cid m fs))) = IDLE
         \<or> (\<not> fst (load L cid m fs) \<and> s_state (session (snd (load L cid m fs))) = s_state (session m))"
proof -
  have p: "get_state_path (m\<lparr>session := (session m)\<lparr>s_context_id := cid\<rparr>\<rparr>)
           = context_path (ctx_base_path m) cid @ ''/plan_state.json''"
    by (simp add: get_state_path_def)
  show ?thesis
  proof (cases "session_from_json j")
    case None
    then show ?thesis using assms(2,3) p
      by (simp add: load_def Let_def exists_def read_in_def)
  next
    case (Some s)
    from session_from_json_state[OF Some] assms(1) have "s_state s = IDLE"
      using value_str_state by metis
    then show ?thesis using assms(2,3) p Some
      by (simp add: load_def Let_def exists_def read_in_def)
  qed
qed

text \<open>
  Claim C10.  When the state file of a context parses and its \<^verbatim>\<open>state\<close> field is missing
  or is not one of the nine state strings, the machine built by \<^verbatim>\<open>/plan\<close> is in state
  \<^verbatim>\<open>IDLE\<close> after loading, is neither active nor interactive, and no resume is offered;
  and on any machine, a load that succeeds leaves the state \<^verbatim>\<open>IDLE\<close>.
\<close>

theorem load_unknown_state_is_idle:
  assumes "files fs (context_path base cid @ ''/plan_state.json'') = Some tx"
      and "jparse L tx = Some j"
      and "\<forall>s\<in>set state_strings. at_key j ''state'' \<noteq> Some (JStr s)"
  shows "s_state (session (snd (load L cid (new_machine base) fs))) = IDLE
         \<and> \<not> is_active (snd (load L cid (new_machine base) fs))
         \<and> \<not> is_interactive (snd (load L cid (new_machine base) fs))
         \<and> \<not> offers_resume L base cid fs
         \<and> (ctx_base_path m = base \<and> fst (load L cid m fs) \<longrightarrow>
               s_state (session (snd (load L cid m fs))) = IDLE
               \<and> \<not> is_active (snd (load L cid m fs))
               \<and> \<not> is_interactive (snd (load L cid m fs)))"
proof -
  let ?m0 = "new_machine base"
  have b: "ctx_base_path ?m0 = base" by (simp add: new_machine_def)
  have i: "s_state (session ?m0) = IDLE" by (simp add: new_machine_def new_session_def)
  have 1: "s_state (session (snd (load L cid ?m0 fs))) = IDLE"
    using load_state[where j=j and fs=fs and m="?m0" and cid=cid and tx=tx and L=L, OF assms(3)] assms(1,2) b i by auto
  then have 2: "\<not> is_active (snd (load L cid ?m0 fs))"
    and 3: "\<not> is_interactive (snd (load L cid ?m0 fs))"
    by (simp_all add: is_active_def is_interactive_def)
  have 4: "\<not> offers_resume L base cid fs"
    using 2 by (auto simp: offers_resume_def Let_def split: prod.splits)
  have 5: "ctx_base_path m = base \<and> fst (load L cid m fs) \<longrightarrow>
               s_state (session (snd (load L cid m fs))) = IDLE
               \<and> \<not> is_active (snd (load L cid m fs))
               \<and> \<not> is_interactive (snd (load L cid m fs))"
    using load_state[where j=j and fs=fs and m=m and cid=cid and tx=tx and L=L, OF assms(3)] assms(1,2)
    by (auto simp: is_active_def is_interactive_def)
  show ?thesis using 1 2 3 4 5 by (intro conjI)
qed

text \<open>The theorem at a state file whose state is the unknown string \<^verbatim>\<open>paused\<close>.\<close>

theorem load_unknown_state_is_idle_witness:
  "s_state (session (snd (load (table_lib [(''{\"state\":\"paused\",\"task\":\"t\"}'',
        JObj [(''state'', JStr ''paused''), (''task'', JStr ''t'')])]) ''c1'' (new_machine ''d'')
        (disk [(''d/contexts/c1/plan_state.json'', ''{\"state\":\"paused\",\"task\":\"t\"}'')]
              [''d/contexts/c1''])))) = IDLE
   \<and> fst (load (table_lib [(''{\"state\":\"paused\",\"task\":\"t\"}'',
        JObj [(''state'', JStr ''paused''), (''task'', JStr ''t'')])]) ''c1'' (new_machine ''d'')
        (disk [(''d/contexts/c1/plan_state.json'', ''{\"state\":\"paused\",\"task\":\"t\"}'')]
              [''d/contexts/c1'']))
   \<and> \<not> offers_resume (table_lib [(''{\"state\":\"paused\",\"task\":\"t\"}'',
        JObj [(''state'', JStr ''paused''), (''task'', JStr ''t'')])]) ''d'' ''c1''
        (disk [(''d/contexts/c1/plan_state.json'', ''{\"state\":\"paused\",\"task\":\"t\"}'')]
              [''d/contexts/c1''])"
proof -
  let ?text = "''{\"state\":\"paused\",\"task\":\"t\"}''"
  let ?j = "JObj [(''state'', JStr ''paused''), (''task'', JStr ''t'')]"
  let ?L = "table_lib [(?text, ?j)]"
  let ?fs = "disk [(''d/contexts/c1/plan_state.json'', ?text)] [''d/contexts/c1'']"
  have a: "files ?fs (context_path ''d'' ''c1'' @ ''/plan_state.json'') = Some ?text"
    by (simp add: disk_def context_path_def)
  have b: "jparse ?L ?text = Some ?j" by (simp add: table_lib_def)
  have c: "\<forall>s\<in>set state_strings. at_key ?j ''state'' \<noteq> Some (JStr s)"
    by (simp add: state_strings_def at_key_def)
  have d: "fst (load ?L ''c1'' (new_machine ''d'') ?fs)"
    by (simp add: load_def new_machine_def new_session_def disk_def context_path_def
        get_state_path_def exists_def read_in_def table_lib_def Let_def session_from_json_def
        value_str_def value_json_def value_int_def get_string_def)
  show ?thesis
    using load_unknown_state_is_idle[OF a b c] d by simp
qed

subsection \<open>Reading the context store\<close>

text \<open>
  Claim C9, as amended.  \<^verbatim>\<open>read_json\<close> yields an absent result exactly when the file
  cannot be opened or its text does not parse: a missing file yields an absent result, and
  so does a file that exists and fails to parse.  In both cases \<^verbatim>\<open>load_context\<close> returns
  the same absent result.
\<close>

theorem read_json_absent:
  "(read_json L fs p = None \<longleftrightarrow>
      read_in fs p = None \<or> (\<exists>t. read_in fs p = Some t \<and> jparse L t = None))
   \<and> (files fs p = None \<longrightarrow> read_json L fs p = None)
   \<and> (files fs p = Some t \<and> jparse L t = None \<longrightarrow> read_json L fs p = None)
   \<and> (read_json L fs (context_path base cid @ ''/conversation.json'') = None \<longrightarrow>
         load_context L base fs cid = Inr None)"
proof -
  have 1: "read_json L fs p = None \<longleftrightarrow>
      read_in fs p = None \<or> (\<exists>t. read_in fs p = Some t \<and> jparse L t = None)"
    by (cases "read_in fs p") (simp_all add: read_json_def)
  have 2: "files fs p = None \<longrightarrow> read_json L fs p = None"
    by (simp add: read_json_def read_in_def)
  have 3: "files fs p = Some t \<and> jparse L t = None \<longrightarrow> read_json L fs p = None"
    by (simp add: read_json_def read_in_def)
  have 4: "read_json L fs (context_path base cid @ ''/conversation.json'') = None \<longrightarrow>
         load_context L base fs cid = Inr None"
    by (simp add: load_context_def)
  show ?thesis using 1 2 3 4 by (intro conjI)
qed

text \<open>The theorem at a conversation file that is cut off after its first key.\<close>

theorem read_json_absent_witness:
  "read_json (table_lib [(''{}'', JObj [])])
      (disk [(''d/contexts/c1/conversation.json'', ''{\"id\": '')] [''d/contexts/c1''])
      ''d/contexts/c1/conversation.json'' = None
   \<and> load_context (table_lib [(''{}'', JObj [])]) ''d''
      (disk [(''d/contexts/c1/conversation.json'', ''{\"id\": '')] [''d/contexts/c1'']) ''c1''
     = Inr None"
proof -
  let ?L = "table_lib [(''{}'', JObj [])]"
  let ?fs = "disk [(''d/contexts/c1/conversation.json'', ''{\"id\": '')] [''d/contexts/c1'']"
  let ?p = "''d/contexts/c1/conversation.json''"
  have p: "context_path ''d'' ''c1'' @ ''/conversation.json'' = ?p"
    by (simp add: context_path_def)
  have a: "files ?fs ?p = Some ''{\"id\": '' \<and> jparse ?L ''{\"id\": '' = None"
    by (simp add: disk_def table_lib_def)
  have r: "read_json ?L ?fs ?p = None"
    using read_json_absent[where L="?L" and fs="?fs" and p="?p" and t="''{\"id\": ''",
        THEN conjunct2, THEN conjunct2, THEN conjunct1, rule_format, OF a] .
  have "load_context ?L ''d'' ?fs ''c1'' = Inr None"
    using read_json_absent[where L="?L" and fs="?fs" and base="''d''" and cid="''c1''",
        THEN conjunct2, THEN conjunct2, THEN conjunct2, rule_format] r unfolding p by simp
  with r show ?thesis by simp
qed

text \<open>
  Claim C9 as stated fails: the read of a missing file and the read of a file that fails
  to parse return the same value, from \<^verbatim>\<open>read_json\<close> and from \<^verbatim>\<open>load_context\<close>, so the
  parse error cannot be told from absence.
\<close>

theorem parse_error_indistinguishable_counterexample:
  "files (disk [] [''d/contexts/c1'']) ''d/contexts/c1/conversation.json'' = None
   \<and> files (disk [(''d/contexts/c1/conversation.json'', ''{\"id\": '')] [''d/contexts/c1''])
        ''d/contexts/c1/conversation.json'' = Some ''{\"id\": ''
   \<and> jparse (table_lib [(''{}'', JObj [])]) ''{\"id\": '' = None
   \<and> read_json (table_lib [(''{}'', JObj [])])
        (disk [(''d/contexts/c1/conversation.json'', ''{\"id\": '')] [''d/contexts/c1''])
        ''d/contexts/c1/conversation.json''
     = read_json (table_lib [(''{}'', JObj [])]) (disk [] [''d/contexts/c1''])
        ''d/contexts/c1/conversation.json''
   \<and> load_context (table_lib [(''{}'', JObj [])]) ''d''
        (disk [(''d/contexts/c1/conversation.json'', ''{\"id\": '')] [''d/contexts/c1'']) ''c1''
     = load_context (table_lib [(''{}'', JObj [])]) ''d'' (disk [] [''d/contexts/c1'']) ''c1''
   \<and> read_json (table_lib [(''{}'', JObj [])])
        (disk [(''d/contexts/c1/conversation.json'', ''{}'')] [''d/contexts/c1''])
        ''d/contexts/c1/conversation.json'' = Some (JObj [])"
  by (simp add: disk_def table_lib_def read_json_def read_in_def load_context_def context_path_def)

subsection \<open>Compaction\<close>




















subsection \<open>Approval of a plan\<close>









subsection \<open>Modifications made by a subagent\<close>

lemma add_nested_files_eq:
  "add_nested_files js fs = (fold add_file (leading_strings js) fs, list_all is_string js)"
  by (induction js arbitrary: fs) (auto simp: get_string_def is_string_def split: json.splits)

lemma add_nested_commands_eq:
  "add_nested_commands js cs = cs @ leading_strings js"
  by (induction js arbitrary: cs) (auto simp: get_string_def split: json.splits)

lemma nested_result_eq:
  assumes "jparse L content = Some rj"
  shows "nested_result L content acc
         = (fold add_file (result_files rj) (fst acc), snd acc @ result_commands rj)"
  using assms
  by (auto simp: nested_result_def result_files_def result_commands_def add_nested_files_eq
      add_nested_commands_eq split: option.splits)

lemma nested_result_none:
  "jparse L content = None \<Longrightarrow> nested_result L content acc = acc"
  by (simp add: nested_result_def)

lemma handle_call_eq:
  assumes "call_name tc = Some n" and "call_arguments tc = Some a"
  shows "handle_call L messages tc n a acc
         = (fold add_file (call_files L messages tc) (fst acc),
            snd acc @ call_commands L messages tc)"
proof (cases "jparse L a")
  case None
  then show ?thesis using assms
    by (simp add: handle_call_def call_files_def call_commands_def parsed_arguments_def)
next
  case (Some args)
  consider (w) "n = ''write'' \<or> n = ''edit''" | (b) "n = ''bash''" | (s) "n = ''spawn_agent''"
    | (o) "n \<noteq> ''write''" "n \<noteq> ''edit''" "n \<noteq> ''bash''" "n \<noteq> ''spawn_agent''"
    by auto
  then show ?thesis
  proof cases
    case w
    then show ?thesis using assms Some
      by (auto simp: handle_call_def call_files_def call_commands_def parsed_arguments_def
          split: option.splits)
  next
    case b
    then show ?thesis using assms Some
      by (auto simp: handle_call_def call_files_def call_commands_def parsed_arguments_def
          split: option.splits)
  next
    case s
    then show ?thesis using assms Some
      by (auto simp: handle_call_def call_files_def call_commands_def parsed_arguments_def
          spawn_result_def nested_result_eq nested_result_none split: option.splits)
  next
    case o
    then show ?thesis using assms Some
      by (simp add: handle_call_def call_files_def call_commands_def parsed_arguments_def)
  qed
qed

lemma process_call_eq:
  assumes "process_call L messages tc acc = Some acc'"
  shows "acc' = (fold add_file (call_files L messages tc) (fst acc),
                 snd acc @ call_commands L messages tc)"
proof -
  from assms obtain n a where n: "call_name tc = Some n" and a: "call_arguments tc = Some a"
    and h: "acc' = handle_call L messages tc n a acc"
    by (auto simp: process_call_def Option.bind_eq_Some_conv)
  show ?thesis unfolding h by (rule handle_call_eq[OF n a])
qed

lemma process_calls_eq:
  "process_calls L messages tcs acc = Some acc' \<Longrightarrow>
     acc' = (fold add_file (concat (map (call_files L messages) tcs)) (fst acc),
             snd acc @ concat (map (call_commands L messages) tcs))"
proof (induction tcs arbitrary: acc)
  case Nil
  then show ?case by simp
next
  case (Cons tc tcs)
  from Cons.prems obtain a1 where p: "process_call L messages tc acc = Some a1"
    and r: "process_calls L messages tcs a1 = Some acc'"
    by (auto split: option.splits)
  from Cons.IH[OF r] process_call_eq[OF p] show ?case by simp
qed

lemma process_message_eq:
  assumes "process_message L messages msg acc = Some acc'"
  shows "acc' = (fold add_file (concat (map (call_files L messages) (tool_calls_of msg))) (fst acc),
             snd acc @ concat (map (call_commands L messages) (tool_calls_of msg)))"
proof -
  from assms obtain role where role: "value_str msg ''role'' [] = Some role"
    by (auto simp: process_message_def split: option.splits)
  show ?thesis
  proof (cases "role = ''assistant'' \<and> contains msg ''tool_calls''")
    case True
    with assms role obtain tcs where t: "at_key msg ''tool_calls'' = Some tcs"
      and p: "process_calls L messages (items tcs) acc = Some acc'"
      by (auto simp: process_message_def split: option.splits)
    have "tool_calls_of msg = items tcs" using True role t by (simp add: tool_calls_of_def)
    with process_calls_eq[OF p] show ?thesis by simp
  next
    case False
    with assms role have e: "acc' = acc" by (auto simp: process_message_def)
    have "tool_calls_of msg = []"
      using False role
      by (cases msg) (auto simp: tool_calls_of_def contains_def at_key_def split: option.splits)
    with e show ?thesis by simp
  qed
qed

lemma process_messages_eq:
  "process_messages L messages ms acc = Some acc' \<Longrightarrow>
     acc' = (fold add_file (concat (map (call_files L messages) (concat (map tool_calls_of ms)))) (fst acc),
             snd acc @ concat (map (call_commands L messages) (concat (map tool_calls_of ms))))"
proof (induction ms arbitrary: acc)
  case Nil
  then show ?case by simp
next
  case (Cons m ms)
  from Cons.prems obtain a1 where p: "process_message L messages m acc = Some a1"
    and r: "process_messages L messages ms a1 = Some acc'"
    by (auto split: option.splits)
  from Cons.IH[OF r] process_message_eq[OF p] show ?case by simp
qed

lemma fold_add_file:
  "fold add_file xs acc = acc @ dedup_first (filter (\<lambda>x. x \<notin> set acc) xs)"
proof (induction xs arbitrary: acc)
  case Nil
  then show ?case by simp
next
  case (Cons x xs)
  show ?case
  proof (cases "x \<in> set acc")
    case True
    then show ?thesis using Cons.IH[of acc] by (simp add: add_file_def)
  next
    case False
    have "filter (\<lambda>y. y \<notin> set (acc @ [x])) xs = filter (\<lambda>y. y \<noteq> x) (filter (\<lambda>y. y \<notin> set acc) xs)"
      by (induction xs) auto
    then show ?thesis using False Cons.IH[of "acc @ [x]"] by (simp add: add_file_def)
  qed
qed

lemma set_dedup_first: "set (dedup_first xs) = set xs"
  by (induction xs rule: dedup_first.induct) auto

lemma distinct_dedup_first: "distinct (dedup_first xs)"
  by (induction xs rule: dedup_first.induct) (auto simp: set_dedup_first)

lemma process_calls_total:
  "list_all well_formed_call tcs \<Longrightarrow> process_calls L messages tcs acc \<noteq> None"
  by (induction tcs arbitrary: acc)
     (auto simp: well_formed_call_def process_call_def split: option.splits)

lemma process_message_total:
  assumes "well_formed_message msg"
  shows "process_message L messages msg acc \<noteq> None"
proof -
  from assms obtain role where role: "value_str msg ''role'' [] = Some role"
    by (auto simp: well_formed_message_def)
  show ?thesis
  proof (cases "role = ''assistant'' \<and> contains msg ''tool_calls''")
    case True
    then obtain tcs where t: "at_key msg ''tool_calls'' = Some tcs"
      by (cases msg) (auto simp: contains_def at_key_def)
    have "tool_calls_of msg = items tcs" using True role t by (simp add: tool_calls_of_def)
    with assms have "list_all well_formed_call (items tcs)" by (simp add: well_formed_message_def)
    from process_calls_total[OF this] show ?thesis using True role t
      by (simp add: process_message_def)
  next
    case False
    then show ?thesis using role by (auto simp: process_message_def)
  qed
qed

lemma process_messages_total:
  "list_all well_formed_message ms \<Longrightarrow> process_messages L messages ms acc \<noteq> None"
  by (induction ms arbitrary: acc) (auto simp: process_message_total split: option.splits)

text \<open>
  Claim C6.  When \<^verbatim>\<open>extract_modifications\<close> returns, the files are the \<^verbatim>\<open>file_path\<close> of
  the \<^verbatim>\<open>write\<close> and \<^verbatim>\<open>edit\<close> calls and the \<^verbatim>\<open>files_modified\<close> of the tool results
  of the \<^verbatim>\<open>spawn_agent\<close> calls, in the order of the calls, each kept at its first
  occurrence only; the commands are the \<^verbatim>\<open>command\<close> of the \<^verbatim>\<open>bash\<close> calls, cut, and the
  \<^verbatim>\<open>commands_run\<close> of the nested results, in order.  It returns on every transcript whose
  messages have a string role and whose tool calls have a string name and string arguments.
  A command of at most 200 characters is kept; a longer one becomes its first 197
  characters followed by three dots, 200 characters in all.
\<close>

theorem extract_modifications_spec:
  "(extract_modifications L messages = Some (files_modified, commands_run) \<longrightarrow>
       files_modified = spec_files_modified L messages
       \<and> commands_run = spec_commands_run L messages
       \<and> distinct files_modified)
   \<and> (well_formed_transcript messages \<longrightarrow> extract_modifications L messages \<noteq> None)
   \<and> (length cmd \<le> 200 \<longrightarrow> truncate_command cmd = cmd)
   \<and> (200 < length cmd \<longrightarrow>
         length (truncate_command cmd) = 200
         \<and> take 197 (truncate_command cmd) = take 197 cmd
         \<and> drop 197 (truncate_command cmd) = ''...'')"
proof -
  have 1: "extract_modifications L messages = Some (files_modified, commands_run) \<longrightarrow>
       files_modified = spec_files_modified L messages
       \<and> commands_run = spec_commands_run L messages
       \<and> distinct files_modified"
  proof
    assume "extract_modifications L messages = Some (files_modified, commands_run)"
    then have "process_messages L messages (items messages) ([], []) = Some (files_modified, commands_run)"
      by (simp add: extract_modifications_def)
    from process_messages_eq[OF this]
    have f: "files_modified = spec_files_modified L messages"
      and c: "commands_run = spec_commands_run L messages"
      by (simp_all add: spec_files_modified_def spec_commands_run_def all_tool_calls_def
          fold_add_file)
    show "files_modified = spec_files_modified L messages
       \<and> commands_run = spec_commands_run L messages
       \<and> distinct files_modified"
      using f c by (simp add: spec_files_modified_def distinct_dedup_first)
  qed
  have 2: "well_formed_transcript messages \<longrightarrow> extract_modifications L messages \<noteq> None"
    by (simp add: well_formed_transcript_def extract_modifications_def process_messages_total)
  have 3: "length cmd \<le> 200 \<longrightarrow> truncate_command cmd = cmd"
    by (simp add: truncate_command_def)
  have 4: "200 < length cmd \<longrightarrow>
         length (truncate_command cmd) = 200
         \<and> take 197 (truncate_command cmd) = take 197 cmd
         \<and> drop 197 (truncate_command cmd) = ''...''"
    by (simp add: truncate_command_def substr_def)
  show ?thesis using 1 2 3 4 by (intro conjI)
qed


lemmas eval_extract = extract_modifications_def example_transcript_def transcript_lib_def
  table_lib_def tool_call_def items_def process_message_def process_call_def call_name_def
  call_arguments_def handle_call_def value_str_def value_json_def get_string_def contains_def
  at_key_def add_file_def truncate_command_def nested_result_def

text \<open>The theorem at the example transcript, and at a command of 300 characters.\<close>

theorem extract_modifications_spec_witness:
  "extract_modifications transcript_lib example_transcript = Some ([''/a'', ''/b''], [''ls'', ''make''])
   \<and> spec_files_modified transcript_lib example_transcript = [''/a'', ''/b'']
   \<and> spec_commands_run transcript_lib example_transcript = [''ls'', ''make'']
   \<and> length (truncate_command (replicate 300 (CHR ''x''))) = 200"
proof -
  have e: "extract_modifications transcript_lib example_transcript
           = Some ([''/a'', ''/b''], [''ls'', ''make''])"
    by (simp add: eval_extract)
  have l: "200 < length (replicate 300 (CHR ''x''))" by simp
  note t = extract_modifications_spec[where L=transcript_lib and messages=example_transcript
      and files_modified="[''/a'', ''/b'']" and commands_run="[''ls'', ''make'']"
      and cmd="replicate 300 (CHR ''x'')"]
  from t e have "[''/a'', ''/b''] = spec_files_modified transcript_lib example_transcript
       \<and> [''ls'', ''make''] = spec_commands_run transcript_lib example_transcript"
    by simp
  moreover from t l have "length (truncate_command (replicate 300 (CHR ''x''))) = 200"
    by simp
  ultimately show ?thesis using e by simp
qed

subsection \<open>The spawn depth limit\<close>

lemma depth_error_text:
  "''Maximum spawn depth ('' @ to_string MAX_SPAWN_DEPTH @ '') exceeded. Cannot spawn more subagents.''
   = ''Maximum spawn depth (3) exceeded. Cannot spawn more subagents.''"
  by (simp add: MAX_SPAWN_DEPTH_def to_string_def dec_digits.simps digit_char_def)

text \<open>
  Claim C2.  For every request whose spawn depth is at least 3, \<^verbatim>\<open>spawn\<close> returns a
  result that is not a success and whose error is the message that starts with
  \<^verbatim>\<open>Maximum spawn depth\<close>; the manager is returned as it was: the trace gains no event,
  so no child agent loop is constructed, and the depth stack is unchanged.
\<close>

theorem spawn_depth_exceeded:
  assumes "3 \<le> r_spawn_depth request"
  shows "\<exists>result. spawn env request mgr = (Inr result, mgr)
      \<and> \<not> res_success result
      \<and> res_error result = ''Maximum spawn depth (3) exceeded. Cannot spawn more subagents.''
      \<and> sublist ''Maximum spawn depth'' (res_error result)
      \<and> events (snd (spawn env request mgr)) = events mgr
      \<and> (constructs_loop (events (snd (spawn env request mgr))) \<longleftrightarrow> constructs_loop (events mgr))
      \<and> spawn_depth_stack (snd (spawn env request mgr)) = spawn_depth_stack mgr"
proof -
  let ?res = "new_result\<lparr>res_error := ''Maximum spawn depth (3) exceeded. Cannot spawn more subagents.''\<rparr>"
  have s: "spawn env request mgr = (Inr ?res, mgr)"
    using assms unfolding spawn_def depth_error_text by (simp add: MAX_SPAWN_DEPTH_def)
  have p: "sublist ''Maximum spawn depth'' (''Maximum spawn depth'' @ '' (3) exceeded. Cannot spawn more subagents.'')"
    by (rule sublist_append_rightI)
  show ?thesis
    apply (rule exI[where x="?res"])
    using s p by (simp add: new_result_def del: sublist_code)
qed


text \<open>
  The theorem at a manager inside three nested spawns, whose current depth is 3; for
  comparison, the same request at depth 2 does construct a child loop.
\<close>

theorem spawn_depth_exceeded_witness:
  "get_current_spawn_depth nested_manager = 3
   \<and> fst (spawn example_env (example_request 3) nested_manager)
       = Inr (new_result\<lparr>res_error := ''Maximum spawn depth (3) exceeded. Cannot spawn more subagents.''\<rparr>)
   \<and> snd (spawn example_env (example_request 3) nested_manager) = nested_manager
   \<and> \<not> constructs_loop (events (snd (spawn example_env (example_request 3) nested_manager)))
   \<and> constructs_loop (events (snd (spawn example_env (example_request 2) nested_manager)))"
proof -
  have d: "3 \<le> r_spawn_depth (example_request 3)" by (simp add: example_request_def)
  from spawn_depth_exceeded[OF d, of example_env nested_manager]
  obtain result where s: "spawn example_env (example_request 3) nested_manager = (Inr result, nested_manager)"
    and e: "res_error result = ''Maximum spawn depth (3) exceeded. Cannot spawn more subagents.''"
    and n: "\<not> res_success result"
    by auto
  have r: "result = new_result\<lparr>res_error := ''Maximum spawn depth (3) exceeded. Cannot spawn more subagents.''\<rparr>"
    using s by (simp add: spawn_def example_request_def MAX_SPAWN_DEPTH_def to_string_def
        dec_digits.simps digit_char_def)
  have c: "constructs_loop (events (snd (spawn example_env (example_request 2) nested_manager)))"
    by (simp add: spawn_def example_request_def example_env_def example_agent_def
        nested_manager_def MAX_SPAWN_DEPTH_def get_agent_def Let_def constructs_loop_def
        extract_artifacts_def extract_modifications_def items_def json_empty_def json_size_def)
  have g: "get_current_spawn_depth nested_manager = 3"
    by (simp add: get_current_spawn_depth_def nested_manager_def)
  have ne: "\<not> constructs_loop (events nested_manager)"
    by (simp add: nested_manager_def constructs_loop_def)
  show ?thesis using s r c g ne by simp
qed

subsection \<open>Discovery of agent definitions\<close>

lemma find_app:
  "find P (xs @ ys) = (case find P xs of None \<Rightarrow> find P ys | Some x \<Rightarrow> Some x)"
  by (induction xs) auto

lemma latest_append:
  "latest n (xs @ ys) = (case latest n ys of None \<Rightarrow> latest n xs | Some d \<Rightarrow> Some d)"
  by (simp add: latest_def find_app split: option.splits)

lemma latest_single:
  "latest n [a] = (if a_name a = n then Some a else None)"
  by (simp add: latest_def)

lemma latest_Nil: "latest n [] = None"
  by (simp add: latest_def)

lemma dir_agents_Nil: "dir_agents p [] = []"
  by (simp add: dir_agents_def List.map_filter_simps)

lemma dir_agents_Cons:
  "dir_agents p ((path, is_dir) # es) =
     (if is_dir then (case p path of None \<Rightarrow> dir_agents p es | Some a \<Rightarrow> a # dir_agents p es)
      else dir_agents p es)"
  by (simp add: dir_agents_def List.map_filter_simps split: option.splits)

lemma latest_Cons:
  "latest n (a # xs) = (case latest n xs of None \<Rightarrow> (if a_name a = n then Some a else None)
                         | Some d \<Rightarrow> Some d)"
  by (simp add: latest_def find_app split: option.splits)

lemma scan_entries_map_of:
  assumes "map_of emb n = None"
  shows "map_of (scan_entries p emb es m) n =
     (case latest n (dir_agents p es) of None \<Rightarrow> map_of m n | Some d \<Rightarrow> Some d)"
proof (induction es arbitrary: m)
  case Nil
  then show ?case by (simp add: dir_agents_Nil latest_Nil)
next
  case (Cons e es)
  obtain path is_dir where e: "e = (path, is_dir)" by (cases e)
  show ?case
  proof (cases "is_dir \<and> p path \<noteq> None")
    case False
    then show ?thesis using Cons.IH[of m] e by (auto simp: dir_agents_Cons)
  next
    case True
    then obtain a where a: "p path = Some a" and d: is_dir by auto
    show ?thesis
    proof (cases "map_of emb (a_name a) = None")
      case True
      then show ?thesis using Cons.IH[of "AList.update (a_name a) a m"] e a d
        by (auto simp: dir_agents_Cons latest_Cons update_conv' split: option.splits)
    next
      case False
      with assms have "a_name a \<noteq> n" by auto
      then show ?thesis using Cons.IH[of m] e a d False
        by (auto simp: dir_agents_Cons latest_Cons split: option.splits)
    qed
  qed
qed

lemma scan_paths_map_of:
  assumes "map_of emb n = None"
  shows "scan_paths view p emb sps m = Some m' \<Longrightarrow>
     map_of m' n =
       (case latest n (concat (map (path_agents view p) sps)) of
          None \<Rightarrow> map_of m n | Some d \<Rightarrow> Some d)"
proof (induction sps arbitrary: m)
  case Nil
  then show ?case by (simp add: latest_Nil)
next
  case (Cons sp sps)
  show ?case
  proof (cases "view sp")
    case Absent
    with Cons.prems have "scan_paths view p emb sps m = Some m'" by simp
    from Cons.IH[OF this] show ?thesis using Absent by (simp add: path_agents_def)
  next
    case Not_a_directory
    with Cons.prems show ?thesis by simp
  next
    case (Listing es)
    with Cons.prems have "scan_paths view p emb sps (scan_entries p emb es m) = Some m'" by simp
    from Cons.IH[OF this] show ?thesis using Listing
      by (auto simp: path_agents_def latest_append scan_entries_map_of[OF assms]
          split: option.splits)
  qed
qed

lemma keyed_update: "keyed al \<Longrightarrow> keyed (AList.update (a_name a) a al)"
proof -
  assume k: "keyed al"
  have "set (AList.update (a_name a) a al) \<subseteq> insert (a_name a, a) (set al)"
    by (induction al) auto
  with k show ?thesis by (auto simp: keyed_def distinct_update)
qed

lemma keyed_update': "keyed al \<Longrightarrow> a_name d = k \<Longrightarrow> keyed (AList.update k d al)"
  using keyed_update by auto

lemma scan_entries_keyed: "keyed m \<Longrightarrow> keyed (scan_entries p emb es m)"
  by (induction p emb es m rule: scan_entries.induct) (auto simp: keyed_update split: option.splits)

lemma scan_paths_keyed:
  "keyed m \<Longrightarrow> scan_paths view p emb sps m = Some m' \<Longrightarrow> keyed m'"
proof (induction sps arbitrary: m)
  case Nil
  then show ?case by simp
next
  case (Cons sp sps)
  show ?case
  proof (cases "view sp")
    case Absent
    with Cons.prems have "scan_paths view p emb sps m = Some m'" by simp
    with Cons.prems(1) show ?thesis by (rule Cons.IH)
  next
    case Not_a_directory
    with Cons.prems show ?thesis by simp
  next
    case (Listing es)
    with Cons.prems have "scan_paths view p emb sps (scan_entries p emb es m) = Some m'" by simp
    with scan_entries_keyed[OF Cons.prems(1)] show ?thesis by (rule Cons.IH)
  qed
qed

lemma fold_update_keyed:
  "keyed m \<Longrightarrow> \<forall>(k, d)\<in>set xs. a_name d = k \<Longrightarrow>
     keyed (fold (\<lambda>(name, def) m. AList.update name def m) xs m)"
  by (induction xs arbitrary: m) (auto simp: keyed_update')

lemma fold_update_map_of:
  "map_of (fold (\<lambda>(name, def) m. AList.update name def m) xs m) n =
     (case map_of (rev xs) n of None \<Rightarrow> map_of m n | Some d \<Rightarrow> Some d)"
  by (induction xs arbitrary: m) (auto simp: update_conv' split: option.splits)

lemma map_of_perm:
  assumes "distinct (map fst xs)" and "set ys = set xs" and "distinct (map fst ys)"
  shows "map_of ys = map_of xs"
proof
  fix k
  show "map_of ys k = map_of xs k"
  proof (cases "map_of xs k")
    case None
    then have "k \<notin> fst ` set xs" by (simp add: map_of_eq_None_iff)
    with assms(2) have "k \<notin> fst ` set ys" by simp
    then have "map_of ys k = None" by (simp add: map_of_eq_None_iff)
    then show ?thesis using None by simp
  next
    case (Some v)
    then have "(k, v) \<in> set ys" using assms(2) map_of_SomeD by fastforce
    then show ?thesis using Some assms(3) by simp
  qed
qed

lemma distinct_fst_sort: "distinct (map fst (sort_key f xs)) = distinct (map fst xs)"
  by (simp add: distinct_map)

lemma find_unique:
  assumes "distinct (map a_name xs)" and "a \<in> set xs" and "a_name a = n"
  shows "find (\<lambda>x. a_name x = n) xs = Some a"
  using assms by (induction xs) (auto simp: rev_image_eqI)

lemma find_none: "n \<notin> a_name ` set xs \<Longrightarrow> find (\<lambda>x. a_name x = n) xs = None"
  by (induction xs) auto

lemma keyed_names: "keyed al \<Longrightarrow> map a_name (map snd al) = map fst al"
  by (induction al) (auto simp: keyed_def)

lemma keyed_distinct_names: "keyed al \<Longrightarrow> distinct (map a_name (map snd al))"
  by (metis keyed_names keyed_def)

lemma get_agent_keyed:
  assumes "keyed al"
  shows "get_agent (sort_key a_name (map snd (sort_key fst al))) n = map_of al n"
proof -
  let ?xs = "sort_key a_name (map snd (sort_key fst al))"
  have s: "set ?xs = snd ` set al" by simp
  have "distinct (map a_name (map snd al))" using assms by (rule keyed_distinct_names)
  then have "distinct (map snd al) \<and> inj_on a_name (set (map snd al))"
    by (rule distinct_map[THEN iffD1])
  then have d0: "distinct (map snd al)" and i0: "inj_on a_name (set (map snd al))"
    by (rule conjunct1, rule conjunct2)
  have d: "distinct (map a_name ?xs)"
    using d0 i0 by (simp add: distinct_map)
  show ?thesis
  proof (cases "map_of al n")
    case None
    then have "n \<notin> fst ` set al" by (simp add: map_of_eq_None_iff)
    then have "n \<notin> a_name ` set ?xs" using assms s by (force simp: keyed_def)
    then show ?thesis using None by (simp add: get_agent_def find_none)
  next
    case (Some a)
    then have m: "(n, a) \<in> set al" by (rule map_of_SomeD)
    then have "a \<in> set ?xs" using s by force
    moreover have "a_name a = n" using m assms by (auto simp: keyed_def)
    ultimately show ?thesis using Some d by (simp add: get_agent_def find_unique)
  qed
qed


lemma latest_concat_none:
  "\<forall>p\<in>set ps. latest n (f p) = None \<Longrightarrow> latest n (concat (map f ps)) = None"
  by (induction ps) (auto simp: latest_Nil latest_append)

text \<open>
  Claim C7.  After \<^verbatim>\<open>discover\<close>, every embedded agent is found under its name with its
  embedded definition, whatever the disk holds, and the embedded map is unchanged: a disk
  entry with the name of an embedded agent is skipped.  A name that is not embedded resolves
  to the definition applied last, search paths taken from the last of the vector to the
  first; hence a definition in a search path (the project's) wins over the definitions of
  the same name in the paths after it (the user's), when no path before it defines the name.
\<close>

theorem discover_precedence:
  assumes "keyed (embedded_agents reg)"
      and "discover view parse_agent search_paths reg = Inr (count, reg')"
  shows "(\<forall>(k, d)\<in>set (embedded_agents reg). get_agent (agents reg') k = Some d)
    \<and> embedded_agents reg' = embedded_agents reg
    \<and> (map_of (embedded_agents reg) n = None \<longrightarrow>
          get_agent (agents reg') n = latest n (found_agents view parse_agent search_paths))
    \<and> (map_of (embedded_agents reg) n = None
         \<and> search_paths = pre @ local_path # post
         \<and> (\<forall>p\<in>set pre. latest n (path_agents view parse_agent p) = None)
         \<and> latest n (path_agents view parse_agent local_path) = Some d
         \<longrightarrow> get_agent (agents reg') n = Some d)"
proof -
  let ?emb = "embedded_agents reg"
  let ?upd = "\<lambda>(name, def) m. AList.update name def m"
  from assms(2) obtain m where
    sp: "scan_paths view parse_agent ?emb (rev search_paths) [] = Some m"
    by (auto simp: discover_def split: option.splits)
  let ?m2 = "fold ?upd (sort_key fst ?emb) m"
  from assms(2) sp have reg': "reg' = reg\<lparr>agents := sort_key a_name (map snd (sort_key fst ?m2))\<rparr>"
    by (simp add: discover_def Let_def)
  have k0: "keyed []" by (simp add: keyed_def)
  have km: "keyed m" using k0 sp by (rule scan_paths_keyed)
  have ke: "\<forall>(k, d)\<in>set (sort_key fst ?emb). a_name d = k"
    using assms(1) by (simp add: keyed_def)
  have km2: "keyed ?m2" using km ke by (rule fold_update_keyed)
  have ga: "get_agent (agents reg') x = map_of ?m2 x" for x
    unfolding reg' using get_agent_keyed[OF km2] by simp
  have pe: "map_of (rev (sort_key fst ?emb)) = map_of ?emb"
    using assms(1) by (intro map_of_perm) (simp_all add: keyed_def distinct_map rev_map[symmetric])
  have m2: "map_of ?m2 x = (case map_of ?emb x of None \<Rightarrow> map_of m x | Some d \<Rightarrow> Some d)" for x
    by (simp add: fold_update_map_of pe)
  have A: "\<forall>(k, d)\<in>set ?emb. get_agent (agents reg') k = Some d"
  proof (clarify)
    fix k d assume "(k, d) \<in> set ?emb"
    with assms(1) have "map_of ?emb k = Some d" by (simp add: keyed_def)
    then show "get_agent (agents reg') k = Some d" by (simp add: ga m2)
  qed
  have B: "embedded_agents reg' = embedded_agents reg" by (simp add: reg')
  have C: "map_of ?emb n = None \<longrightarrow>
          get_agent (agents reg') n = latest n (found_agents view parse_agent search_paths)"
  proof
    assume e: "map_of ?emb n = None"
    from scan_paths_map_of[OF e sp]
    show "get_agent (agents reg') n = latest n (found_agents view parse_agent search_paths)"
      using e by (simp add: ga m2 found_agents_def split: option.splits)
  qed
  have D: "map_of ?emb n = None
         \<and> search_paths = pre @ local_path # post
         \<and> (\<forall>p\<in>set pre. latest n (path_agents view parse_agent p) = None)
         \<and> latest n (path_agents view parse_agent local_path) = Some d
         \<longrightarrow> get_agent (agents reg') n = Some d"
  proof (intro impI, elim conjE)
    assume e: "map_of ?emb n = None" and s: "search_paths = pre @ local_path # post"
      and pre: "\<forall>p\<in>set pre. latest n (path_agents view parse_agent p) = None"
      and l: "latest n (path_agents view parse_agent local_path) = Some d"
    have "\<forall>p\<in>set (rev pre). latest n (path_agents view parse_agent p) = None"
      using pre by simp
    then have n: "latest n (concat (map (path_agents view parse_agent) (rev pre))) = None"
      by (rule latest_concat_none)
    have "latest n (found_agents view parse_agent search_paths) = Some d"
      unfolding found_agents_def s using n l by (simp add: latest_append)
    with C e show "get_agent (agents reg') n = Some d" by simp
  qed
  show ?thesis using A B C D by (intro conjI)
qed


text \<open>
  The theorem at the example: the embedded \<^verbatim>\<open>explorer-agent\<close> stays, and the project's
  \<^verbatim>\<open>linter\<close> wins over the user's.
\<close>

theorem discover_precedence_witness:
  "(case discover example_view example_parse [''data/agents'', ''proj/agents'', ''home/agents'']
           example_registry of
      Inl _ \<Rightarrow> False
    | Inr (count, reg') \<Rightarrow>
        get_agent (agents reg') ''explorer-agent'' = Some example_agent
        \<and> get_agent (agents reg') ''linter''
            = Some (disk_agent ''linter'' ''proj/agents/linter''))"
proof -
  define sp where "sp = [''data/agents'', ''proj/agents'', ''home/agents'']"
  define r where "r = discover example_view example_parse sp example_registry"
  define rv where "rv = disk_agent ''linter'' ''proj/agents/linter''"
  define nm where "nm = ''linter''"
  define ex where "ex = ''explorer-agent''"
  have k: "keyed (embedded_agents example_registry)"
    by (simp add: keyed_def example_registry_def example_agent_def)
  have "\<exists>count reg'. r = Inr (count, reg')"
    unfolding r_def sp_def discover_def by (simp add: example_view_def Let_def)
  then obtain count reg' where d: "r = Inr (count, reg')" by blast
  have e: "(ex, example_agent) \<in> set (embedded_agents example_registry)"
    by (simp add: example_registry_def ex_def)
  have n: "map_of (embedded_agents example_registry) nm = None"
    by (simp add: example_registry_def nm_def)
  have s: "sp = [''data/agents''] @ ''proj/agents'' # [''home/agents'']" by (simp add: sp_def)
  have p: "\<forall>p\<in>set [''data/agents'']. latest nm (path_agents example_view example_parse p) = None"
    by (simp add: path_agents_def example_view_def latest_def)
  have l: "latest nm (path_agents example_view example_parse ''proj/agents'') = Some rv"
    by (simp add: path_agents_def example_view_def latest_def dir_agents_def
        List.map_filter_simps example_parse_def disk_agent_def nm_def rv_def)
  note t = discover_precedence[OF k d[unfolded r_def], where n=nm and pre="[''data/agents'']"
      and local_path="''proj/agents''" and post="[''home/agents'']" and d=rv]
  have 1: "get_agent (agents reg') ex = Some example_agent"
    using t[THEN conjunct1, THEN bspec, OF e] by simp
  have 2: "get_agent (agents reg') nm = Some rv"
    using t[THEN conjunct2, THEN conjunct2, THEN conjunct2] n s p l by simp
  show ?thesis
    using d 1 2 unfolding r_def sp_def rv_def nm_def ex_def by simp
qed

section \<open>Questions of the planning agent\<close>

subsection \<open>The search of \<^verbatim>\<open>std::string::find\<close>\<close>

lemma find_str_prefix:
  "find_str pat s = Some i \<Longrightarrow> prefix pat (drop i s)"
  by (induction s arbitrary: i) (auto split: if_splits)

lemma find_str_first:
  "find_str pat s = Some i \<Longrightarrow> j < i \<Longrightarrow> \<not> prefix pat (drop j s)"
proof (induction s arbitrary: i j)
  case Nil then show ?case by (auto split: if_splits)
next
  case (Cons c cs)
  show ?case
  proof (cases "prefix pat (c # cs)")
    case True with Cons.prems show ?thesis by simp
  next
    case False
    with Cons.prems obtain i' where i': "find_str pat cs = Some i'" "i = Suc i'" by auto
    show ?thesis
    proof (cases j)
      case 0 with False show ?thesis by simp
    next
      case (Suc j')
      with Cons.prems i' have "j' < i'" by simp
      from Cons.IH[OF i'(1) this] Suc show ?thesis by simp
    qed
  qed
qed

lemma find_str_None_iff: "find_str pat s = None \<longleftrightarrow> \<not> sublist pat s"
proof (induction s)
  case Nil show ?case by simp
next
  case (Cons c cs)
  show ?case by (simp add: sublist_Cons_right Cons)
qed

lemma find_str_le: "find_str pat s = Some i \<Longrightarrow> i + length pat \<le> length s"
  by (induction s arbitrary: i) (auto split: if_splits dest: prefix_length_le)

subsection \<open>The scan for the closing brace\<close>

lemma string_body_scan:
  "string_body b \<Longrightarrow>
   brace_scan (b @ CHR 0x22 # rest) i n True False = brace_scan rest (i + length b + 1) n False False"
  by (induction b arbitrary: i rule: string_body.induct) simp_all

lemma balanced_scan:
  "balanced u \<Longrightarrow> 1 \<le> n \<Longrightarrow>
   brace_scan (u @ rest) i n False False = brace_scan rest (i + length u) n False False"
proof (induction u arbitrary: i n rest rule: balanced.induct)
  case b_end show ?case by simp
next
  case (b_char c w) then show ?case by simp
next
  case (b_string b w)
  then show ?case by (simp add: string_body_scan add.assoc)
next
  case (b_group u w)
  have "brace_scan ((CHR ''{'' # u @ CHR ''}'' # w) @ rest) i n False False
        = brace_scan (u @ (CHR ''}'' # w @ rest)) (i + 1) (n + 1) False False" by simp
  also have "\<dots> = brace_scan (CHR ''}'' # w @ rest) (i + 1 + length u) (n + 1) False False"
    using b_group.IH(1)[of "n + 1"] b_group.prems by simp
  also have "\<dots> = brace_scan (w @ rest) (i + 1 + length u + 1) n False False"
    using b_group.prems by simp
  also have "\<dots> = brace_scan rest (i + 1 + length u + 1 + length w) n False False"
    using b_group.IH(2)[OF b_group.prems] by simp
  finally show ?case by (simp add: add.assoc)
qed

lemma group_scan:
  assumes "balanced u"
  shows "brace_scan (CHR ''{'' # u @ CHR ''}'' # rest) i 0 False False = Some (i + length u + 1)"
proof -
  have "brace_scan (CHR ''{'' # u @ CHR ''}'' # rest) i 0 False False
        = brace_scan (u @ CHR ''}'' # rest) (i + 1) 1 False False" by simp
  also have "\<dots> = brace_scan (CHR ''}'' # rest) (i + 1 + length u) 1 False False"
    using balanced_scan[OF assms, of 1] by simp
  also have "\<dots> = Some (i + length u + 1)" by simp
  finally show ?thesis .
qed


subsection \<open>The questions text\<close>

lemma find_str_substr:
  assumes "find_str f s = Some i"
  shows "substr s i (length f) = f \<and> (\<forall>j<i. substr s j (length f) \<noteq> f)"
proof -
  have p: "prefix f (drop i s)" using assms by (rule find_str_prefix)
  have 1: "substr s i (length f) = f"
    using p by (metis substr_def append_eq_conv_conj prefix_def)
  have 2: "substr s j (length f) \<noteq> f" if "j < i" for j
  proof
    assume "substr s j (length f) = f"
    then have "prefix f (drop j s)" by (metis substr_def take_is_prefix)
    with find_str_first[OF assms that] show False by simp
  qed
  from 1 2 show ?thesis by simp
qed

lemma fence_start_choice:
  "fence_start s = (if sublist ''```json'' s then find_str ''```json'' s else find_str ''```JSON'' s)"
proof (cases "find_str ''```json'' s")
  case None
  then show ?thesis using find_str_None_iff[of "''```json''" s] by (simp add: fence_start_def)
next
  case (Some i)
  then have "sublist ''```json'' s" using find_str_None_iff[of "''```json''" s] by simp
  with Some show ?thesis by (simp add: fence_start_def)
qed

lemma find_str_eqI:
  "prefix pat (drop i s) \<Longrightarrow> i \<le> length s \<Longrightarrow> (\<And>j. j < i \<Longrightarrow> \<not> prefix pat (drop j s)) \<Longrightarrow>
   find_str pat s = Some i"
proof (induction s arbitrary: i)
  case Nil then show ?case by simp
next
  case (Cons c cs)
  show ?case
  proof (cases i)
    case 0 with Cons.prems show ?thesis by simp
  next
    case (Suc i')
    have np: "\<not> prefix pat (c # cs)" using Cons.prems(3)[of 0] Suc by simp
    have "find_str pat cs = Some i'"
    proof (rule Cons.IH)
      show "prefix pat (drop i' cs)" using Cons.prems(1) Suc by simp
      show "i' \<le> length cs" using Cons.prems(2) Suc by simp
      fix j assume "j < i'"
      then show "\<not> prefix pat (drop j cs)" using Cons.prems(3)[of "Suc j"] Suc by simp
    qed
    with np Suc show ?thesis by simp
  qed
qed

lemma closing_fence:
  assumes "\<not> sublist ''```'' (body @ ''``'')"
  shows "find_str ''```'' (body @ ''```'' @ rest) = Some (length body)"
proof (rule find_str_eqI)
  show "prefix ''```'' (drop (length body) (body @ ''```'' @ rest))" by simp
  show "length body \<le> length (body @ ''```'' @ rest)" by simp
  fix j assume j: "j < length body"
  show "\<not> prefix ''```'' (drop j (body @ ''```'' @ rest))"
  proof
    assume p: "prefix ''```'' (drop j (body @ ''```'' @ rest))"
    define pat where "pat = ''```''"
    define two where "two = ''``''"
    have lp: "length pat = 3" and lt: "length two = 2" by (simp_all add: pat_def two_def)
    have split: "body @ ''```'' @ rest = (body @ two) @ (CHR ''`'' # rest)" by (simp add: two_def)
    have a: "take 3 (drop j (body @ ''```'' @ rest)) = pat"
      using p lp unfolding pat_def by (metis append_eq_conv_conj prefix_def)
    have b: "drop j ((body @ two) @ (CHR ''`'' # rest)) = drop j (body @ two) @ (CHR ''`'' # rest)"
      using j by simp
    have c: "take 3 (drop j (body @ two) @ (CHR ''`'' # rest)) = take 3 (drop j (body @ two))"
      using j lt by simp
    have "take 3 (drop j (body @ two)) = pat"
      using a b c unfolding split by (simp only:)
    then have "body @ two = take j (body @ two) @ pat @ drop 3 (drop j (body @ two))"
      by (metis append_take_drop_id)
    then have "sublist pat (body @ two)" unfolding sublist_def by metis
    with assms show False by (simp add: pat_def two_def)
  qed
qed

lemma trim_right:
  "\<exists>tail. body = rev (dropWhile P (rev body)) @ tail \<and> list_all P tail
     \<and> (rev (dropWhile P (rev body)) = [] \<or> \<not> P (last (rev (dropWhile P (rev body)))))"
proof -
  let ?t = "rev (dropWhile P (rev body))"
  have 1: "body = ?t @ rev (takeWhile P (rev body))"
    by (metis rev_append rev_rev_ident takeWhile_dropWhile_id)
  have 2: "list_all P (rev (takeWhile P (rev body)))"
    by (simp add: list_all_iff) (metis set_takeWhileD)
  have 3: "?t = [] \<or> \<not> P (last ?t)"
  proof (cases "dropWhile P (rev body)")
    case Nil then show ?thesis by simp
  next
    case (Cons x xs)
    then have "\<not> P x" by (metis hd_dropWhile list.sel(1) list.distinct(1))
    with Cons show ?thesis by simp
  qed
  from 1 2 3 show ?thesis by metis
qed

lemma fenced_content:
  assumes fs: "fence_start s = Some i"
    and d: "drop (i + 7) s = blanks @ body @ ''```'' @ rest"
    and bl: "list_all is_blank blanks"
    and hd: "body = [] \<or> \<not> is_blank (hd body)"
    and nf: "\<not> sublist ''```'' (body @ ''``'')"
  shows "\<exists>tail. body = fenced_text s @ tail \<and> list_all is_blank tail
           \<and> (fenced_text s = [] \<or> \<not> is_blank (last (fenced_text s)))"
proof -
  define fence where "fence = ''```''"
  have nb: "\<not> is_blank (hd (body @ fence @ rest))"
    using hd by (cases body) (simp_all add: is_blank_def fence_def)
  have ne: "body @ fence @ rest \<noteq> []" by (simp add: fence_def)
  have tw: "takeWhile is_blank (blanks @ body @ fence @ rest) = blanks"
  proof -
    have "takeWhile is_blank (body @ fence @ rest) = []"
      using nb ne by (cases "body @ fence @ rest") simp_all
    then show ?thesis using bl by (simp add: takeWhile_append list_all_iff)
  qed
  have len: "i + 7 + length blanks \<le> length s"
  proof -
    have "length (drop (i + 7) s) = length (blanks @ body @ fence @ rest)"
      using d by (simp add: fence_def)
    then show ?thesis by (simp add: fence_def)
  qed
  have dr: "drop (i + 7 + length blanks) s = body @ fence @ rest"
  proof -
    have "drop (length blanks) (drop (i + 7) s) = body @ fence @ rest"
      using d by (simp add: fence_def)
    then show ?thesis by (simp add: add.commute)
  qed
  have ff: "find_from fence s (i + 7 + length blanks) = Some (length body + (i + 7 + length blanks))"
    using len dr closing_fence[OF nf, of rest] by (simp add: find_from_def fence_def)
  have sub: "substr s (i + 7 + length blanks) (length body) = body"
    using dr by (simp add: substr_def)
  have ft: "fenced_text s = rev (dropWhile is_blank (rev body))"
    using fs ff sub tw d unfolding fenced_text_def fence_def[symmetric]
    by (simp add: Let_def fence_def)
  show ?thesis unfolding ft by (rule trim_right)
qed

lemma inline_content:
  assumes "fenced_text s = []"
    and f: "find_str ''{\"questions\"'' s = Some d"
    and dr: "drop d s = CHR ''{'' # u @ CHR ''}'' # rest"
    and b: "balanced u"
  shows "questions_text s = CHR ''{'' # u @ ''}''"
proof -
  have sc: "brace_scan (drop d s) d 0 False False = Some (d + length u + 1)"
    unfolding dr by (rule group_scan[OF b])
  have "substr s d (length u + 2) = CHR ''{'' # u @ ''}''"
    unfolding substr_def dr by simp
  then have "inline_text s = CHR ''{'' # u @ ''}''"
    using f sc by (simp add: inline_text_def)
  with assms(1) show ?thesis by (simp add: questions_text_def)
qed

lemma no_fence: "fence_start s = None \<Longrightarrow> fenced_text s = []"
  by (simp add: fenced_text_def)

subsection \<open>The alias keys\<close>

lemma string_options_strings: "string_options (json_strings opts) = opts"
  by (induction opts) (simp_all add: string_options_def json_strings_def items_def
      List.map_filter_def get_string_def)

lemma alias_question:
  "question_of n (JObj [(''question'', JStr t), (''answers'', json_strings opts)])
   = Some (new_question\<lparr>q_id := n, q_text := t, q_options := opts\<rparr>)"
proof -
  have "question_options (JObj [(''question'', JStr t), (''answers'', json_strings opts)])
        = string_options (json_strings opts)"
    by (simp add: question_options_def at_key_def json_strings_def)
  then show ?thesis
    by (simp add: question_of_def value_int_def question_text_def contains_def at_key_def
        get_string_def string_options_strings)
qed

lemma primary_other:
  "k \<noteq> ''text'' \<Longrightarrow> k \<noteq> ''options'' \<Longrightarrow> k \<noteq> ''question'' \<Longrightarrow> k \<noteq> ''answers'' \<Longrightarrow>
   map_of (with_primary_keys kvs) k = map_of kvs k"
  by (induction kvs) (auto simp: with_primary_keys_def primary_key_def)

lemma primary_text:
  "map_of kvs ''text'' = None \<Longrightarrow> map_of (with_primary_keys kvs) ''text'' = map_of kvs ''question''"
  by (induction kvs) (auto simp: with_primary_keys_def primary_key_def split: if_splits)

lemma primary_options:
  "map_of kvs ''options'' = None \<Longrightarrow>
   map_of (with_primary_keys kvs) ''options'' = map_of kvs ''answers''"
  by (induction kvs) (auto simp: with_primary_keys_def primary_key_def split: if_splits)

lemma primary_question: "map_of (with_primary_keys kvs) ''question'' = None"
  by (induction kvs) (auto simp: with_primary_keys_def primary_key_def split: if_splits)

lemma primary_answers: "map_of (with_primary_keys kvs) ''answers'' = None"
  by (induction kvs) (auto simp: with_primary_keys_def primary_key_def split: if_splits)

lemma alias_keys:
  assumes "map_of kvs ''text'' = None" and "map_of kvs ''options'' = None"
  shows "question_of n (JObj kvs) = question_of n (JObj (with_primary_keys kvs))"
proof -
  have i: "value_int (JObj (with_primary_keys kvs)) ''id'' n = value_int (JObj kvs) ''id'' n"
    by (simp add: value_int_def primary_other)
  have t: "question_text (JObj (with_primary_keys kvs)) = question_text (JObj kvs)"
    using assms(1)
    by (simp add: question_text_def contains_def at_key_def primary_text primary_question
        split: option.splits)
  have o: "question_options (JObj (with_primary_keys kvs)) = question_options (JObj kvs)"
    using assms(2)
    by (simp add: question_options_def at_key_def primary_options primary_answers
        split: option.splits json.splits)
  show ?thesis by (simp add: question_of_def i t o)
qed

lemma malformed_empty:
  "questions_text s = [] \<or> jparse L (questions_text s) = None \<Longrightarrow>
   extract_questions L s = new_qa_session"
  by (auto simp: extract_questions_def Let_def)

lemma parsed_session:
  "questions_text s \<noteq> [] \<Longrightarrow> jparse L (questions_text s) = Some j \<Longrightarrow>
   extract_questions L s
   = (case parse_questions_from_json j of None \<Rightarrow> new_qa_session | Some qa \<Rightarrow> qa)"
  by (simp add: extract_questions_def Let_def)


lemma alias_loop:
  "\<forall>kvs\<in>set kvss. map_of kvs ''text'' = None \<and> map_of kvs ''options'' = None \<Longrightarrow>
   questions_loop n (map JObj kvss) acc
   = questions_loop n (map (\<lambda>kvs. JObj (with_primary_keys kvs)) kvss) acc"
  by (induction kvss arbitrary: n acc) (simp_all add: alias_keys split: option.splits)

lemma parse_questions_object:
  "parse_questions_from_json (JObj [(''questions'', JArr qs)])
   = (case questions_loop 1 qs [] of
        None \<Rightarrow> None
      | Some qas \<Rightarrow> Some (new_qa_session\<lparr>questions := qas\<rparr>))"
  by (simp add: parse_questions_from_json_def at_key_def items_def)

lemma alias_session:
  "parse_questions_from_json
     (JObj [(''questions'', JArr [JObj [(''question'', JStr t), (''answers'', json_strings opts)]])])
   = Some (new_qa_session\<lparr>questions :=
        if t \<noteq> [] \<and> opts \<noteq> []
        then [new_question\<lparr>q_id := 1, q_text := t, q_options := opts\<rparr>] else []\<rparr>)"
  by (simp add: parse_questions_object alias_question)

text \<open>
  Claim C5, as amended.  For every reply of the planning agent, \<^verbatim>\<open>extract_questions\<close>
  takes as its fence the first occurrence of the text \<^verbatim>\<open>```json\<close> in lower case, and only
  when the reply holds none the first occurrence of \<^verbatim>\<open>```JSON\<close> in upper case; no other
  spelling is looked for.  The text between the fence and the next three backquotes, without
  the blanks around it, is the questions text.  When that gives nothing, in particular when the
  reply holds no fence, the questions text is the object that starts at the first
  \<^verbatim>\<open>{"questions"\<close> and ends at the brace that matches its opening brace, string literals
  and their escapes skipped.  A question written with the keys \<^verbatim>\<open>question\<close> and
  \<^verbatim>\<open>answers\<close> parses as the same question written with \<^verbatim>\<open>text\<close> and \<^verbatim>\<open>options\<close>.
  A questions text that is empty or does not parse gives the empty session, and so does a
  parsed value on which an accessor throws: the function always returns a session.
\<close>

theorem extract_questions_spec:
  "fence_start s
     = (if sublist ''```json'' s then find_str ''```json'' s else find_str ''```JSON'' s)
   \<and> (find_str f s = None \<longleftrightarrow> \<not> sublist f s)
   \<and> (find_str f s = Some i \<longrightarrow>
         substr s i (length f) = f \<and> (\<forall>j<i. substr s j (length f) \<noteq> f))
   \<and> (fence_start s = Some i \<and> drop (i + 7) s = blanks @ body @ ''```'' @ rest
        \<and> list_all is_blank blanks \<and> (body = [] \<or> \<not> is_blank (hd body))
        \<and> \<not> sublist ''```'' (body @ ''``'') \<longrightarrow>
         (\<exists>tail. body = fenced_text s @ tail \<and> list_all is_blank tail
            \<and> (fenced_text s = [] \<or> \<not> is_blank (last (fenced_text s)))))
   \<and> (fenced_text s \<noteq> [] \<longrightarrow> questions_text s = fenced_text s)
   \<and> (fence_start s = None \<longrightarrow> fenced_text s = [])
   \<and> (fenced_text s = [] \<and> find_str ''{\"questions\"'' s = Some d
        \<and> drop d s = CHR ''{'' # u @ CHR ''}'' # after \<and> balanced u \<longrightarrow>
         questions_text s = CHR ''{'' # u @ ''}'')
   \<and> parse_questions_from_json
        (JObj [(''questions'', JArr [JObj [(''question'', JStr t), (''answers'', json_strings opts)]])])
      = Some (new_qa_session\<lparr>questions :=
          if t \<noteq> [] \<and> opts \<noteq> []
          then [new_question\<lparr>q_id := 1, q_text := t, q_options := opts\<rparr>] else []\<rparr>)
   \<and> ((\<forall>kvs\<in>set kvss. map_of kvs ''text'' = None \<and> map_of kvs ''options'' = None) \<longrightarrow>
         parse_questions_from_json (JObj [(''questions'', JArr (map JObj kvss))])
         = parse_questions_from_json
             (JObj [(''questions'', JArr (map (\<lambda>kvs. JObj (with_primary_keys kvs)) kvss))]))
   \<and> (questions_text s = [] \<or> jparse L (questions_text s) = None \<longrightarrow>
         extract_questions L s = new_qa_session)
   \<and> (questions_text s \<noteq> [] \<and> jparse L (questions_text s) = Some j \<longrightarrow>
         extract_questions L s
         = (case parse_questions_from_json j of None \<Rightarrow> new_qa_session | Some qa \<Rightarrow> qa))"
proof -
  have 1: "fence_start s
     = (if sublist ''```json'' s then find_str ''```json'' s else find_str ''```JSON'' s)"
    by (rule fence_start_choice)
  have 2: "find_str f s = None \<longleftrightarrow> \<not> sublist f s" by (rule find_str_None_iff)
  have 3: "find_str f s = Some i \<longrightarrow>
         substr s i (length f) = f \<and> (\<forall>j<i. substr s j (length f) \<noteq> f)"
    using find_str_substr by simp
  have 4: "fence_start s = Some i \<and> drop (i + 7) s = blanks @ body @ ''```'' @ rest
        \<and> list_all is_blank blanks \<and> (body = [] \<or> \<not> is_blank (hd body))
        \<and> \<not> sublist ''```'' (body @ ''``'') \<longrightarrow>
         (\<exists>tail. body = fenced_text s @ tail \<and> list_all is_blank tail
            \<and> (fenced_text s = [] \<or> \<not> is_blank (last (fenced_text s))))"
    using fenced_content[of s i blanks body rest] by (intro impI) (elim conjE)
  have 5: "fenced_text s \<noteq> [] \<longrightarrow> questions_text s = fenced_text s"
    by (simp add: questions_text_def)
  have 6: "fence_start s = None \<longrightarrow> fenced_text s = []" by (simp add: no_fence)
  have 7: "fenced_text s = [] \<and> find_str ''{\"questions\"'' s = Some d
        \<and> drop d s = CHR ''{'' # u @ CHR ''}'' # after \<and> balanced u \<longrightarrow>
         questions_text s = CHR ''{'' # u @ ''}''"
    using inline_content[of s d u after] by (intro impI) (elim conjE)
  have 8: "parse_questions_from_json
        (JObj [(''questions'', JArr [JObj [(''question'', JStr t), (''answers'', json_strings opts)]])])
      = Some (new_qa_session\<lparr>questions :=
          if t \<noteq> [] \<and> opts \<noteq> []
          then [new_question\<lparr>q_id := 1, q_text := t, q_options := opts\<rparr>] else []\<rparr>)"
    by (rule alias_session)
  have 9: "(\<forall>kvs\<in>set kvss. map_of kvs ''text'' = None \<and> map_of kvs ''options'' = None) \<longrightarrow>
         parse_questions_from_json (JObj [(''questions'', JArr (map JObj kvss))])
         = parse_questions_from_json
             (JObj [(''questions'', JArr (map (\<lambda>kvs. JObj (with_primary_keys kvs)) kvss))])"
    by (simp add: parse_questions_object alias_loop)
  have 10: "questions_text s = [] \<or> jparse L (questions_text s) = None \<longrightarrow>
         extract_questions L s = new_qa_session"
    using malformed_empty by (intro impI)
  have 11: "questions_text s \<noteq> [] \<and> jparse L (questions_text s) = Some j \<longrightarrow>
         extract_questions L s
         = (case parse_questions_from_json j of None \<Rightarrow> new_qa_session | Some qa \<Rightarrow> qa)"
    using parsed_session by simp
  show ?thesis using 1 2 3 4 5 6 7 8 9 10 11 by (intro conjI)
qed

lemmas eval_questions =
  extract_questions_def questions_text_def fenced_text_def fence_start_def inline_text_def
  find_from_def substr_def is_blank_def Let_def parse_questions_from_json_def question_of_def
  question_text_def question_options_def string_options_def at_key_def contains_def value_int_def
  get_int_def get_string_def items_def is_array_def json_strings_def new_qa_session_def
  new_question_def to_int32_def List.map_filter_def table_lib_def


text \<open>
  The theorem at four inputs: a reply with the questions block of the planning prompt behind
  a lower-case fence, a reply with an inline object and no fence, one question written with
  the alias keys, and a fenced block that does not parse.
\<close>

theorem extract_questions_spec_witness:
  "(\<exists>tail. questions_block @ ''\<newline>'' = fenced_text (fenced_reply ''```json'') @ tail
       \<and> list_all is_blank tail
       \<and> (fenced_text (fenced_reply ''```json'') = []
            \<or> \<not> is_blank (last (fenced_text (fenced_reply ''```json'')))))
   \<and> questions_text ''Two questions: {\"questions\":[]} Thanks.'' = ''{\"questions\":[]}''
   \<and> parse_questions_from_json
        (JObj [(''questions'',
                JArr [JObj [(''question'', JStr ''A or B?''), (''answers'', json_strings [''A'', ''B''])]])])
      = parse_questions_from_json
          (JObj [(''questions'',
                  JArr [JObj [(''text'', JStr ''A or B?''), (''options'', json_strings [''A'', ''B''])]])])
   \<and> extract_questions questions_lib ''```json\<newline>{oops\<newline>```''
      = \<lparr>questions = [], current_question_index = 0\<rparr>"
proof -
  let ?s1 = "fenced_reply ''```json''"
  let ?body = "questions_block @ ''\<newline>''"
  have a1: "fence_start ?s1 = Some 28"
    by (simp add: fence_start_def fenced_reply_def)
  have a2: "drop (28 + 7) ?s1 = ''\<newline>'' @ ?body @ ''```'' @ ''\<newline>''"
    by (simp add: fenced_reply_def)
  have a3: "list_all is_blank ''\<newline>''" by (simp add: is_blank_def)
  have a4: "?body = [] \<or> \<not> is_blank (hd ?body)"
    by (simp add: questions_block_def is_blank_def)
  have a0: "find_str ''```'' (?body @ ''``'') = None" by (simp add: questions_block_def)
  have a5: "\<not> sublist ''```'' (?body @ ''``'')" by (rule iffD1[OF find_str_None_iff a0])
  have w1: "\<exists>tail. ?body = fenced_text ?s1 @ tail \<and> list_all is_blank tail
       \<and> (fenced_text ?s1 = [] \<or> \<not> is_blank (last (fenced_text ?s1)))"
    using extract_questions_spec[where s="?s1" and i=28 and blanks="''\<newline>''" and body="?body"
        and rest="''\<newline>''", THEN conjunct2, THEN conjunct2, THEN conjunct2, THEN conjunct1,
        rule_format, OF conjI[OF a1 conjI[OF a2 conjI[OF a3 conjI[OF a4 a5]]]]] .
  let ?s2 = "''Two questions: {\"questions\":[]} Thanks.''"
  let ?u = "''\"questions\":[]''"
  have b1: "fenced_text ?s2 = []" by (simp add: fenced_text_def fence_start_def)
  have b2: "find_str ''{\"questions\"'' ?s2 = Some 15" by simp
  have b3: "drop 15 ?s2 = CHR ''{'' # ?u @ CHR ''}'' # '' Thanks.''" by simp
  have sb: "string_body ''questions''" by (intro string_body.intros) simp_all
  have b0: "balanced '':[]''" by (intro balanced.intros) simp_all
  have b4: "balanced ?u" using b_string[OF sb b0] by simp
  have w2: "questions_text ?s2 = ''{\"questions\":[]}''"
    using extract_questions_spec[where s="?s2" and d=15 and u="?u" and after="'' Thanks.''",
        THEN conjunct2, THEN conjunct2, THEN conjunct2, THEN conjunct2, THEN conjunct2,
        THEN conjunct2, THEN conjunct1, rule_format, OF conjI[OF b1 conjI[OF b2 conjI[OF b3 b4]]]]
    by simp
  let ?kvs = "[(''question'', JStr ''A or B?''), (''answers'', json_strings [''A'', ''B''])]"
  have c1: "\<forall>kvs\<in>set [?kvs]. map_of kvs ''text'' = None \<and> map_of kvs ''options'' = None"
    by simp
  have w3: "parse_questions_from_json (JObj [(''questions'', JArr [JObj ?kvs])])
      = parse_questions_from_json
          (JObj [(''questions'',
                  JArr [JObj [(''text'', JStr ''A or B?''), (''options'', json_strings [''A'', ''B''])]])])"
    using extract_questions_spec[where kvss="[?kvs]", THEN conjunct2, THEN conjunct2,
        THEN conjunct2, THEN conjunct2, THEN conjunct2, THEN conjunct2, THEN conjunct2,
        THEN conjunct2, THEN conjunct1, THEN mp, OF c1]
    by (simp add: with_primary_keys_def primary_key_def)
  let ?s4 = "''```json\<newline>{oops\<newline>```''"
  have d1: "questions_text ?s4 = [] \<or> jparse questions_lib (questions_text ?s4) = None"
    by (simp add: eval_questions questions_lib_def questions_block_def)
  have w4: "extract_questions questions_lib ?s4 = \<lparr>questions = [], current_question_index = 0\<rparr>"
    using extract_questions_spec[where s="?s4" and L=questions_lib, THEN conjunct2, THEN conjunct2,
        THEN conjunct2, THEN conjunct2, THEN conjunct2, THEN conjunct2, THEN conjunct2,
        THEN conjunct2, THEN conjunct2, THEN conjunct1, rule_format, OF d1]
    by (simp add: new_qa_session_def)
  from w1 w2 w3 w4 show ?thesis by (intro conjI)
qed

text \<open>
  Claim C5 as stated fails: the fence is not found without regard to case.  The library reads
  the questions block and the block holds one question, which the reply with the fence
  \<^verbatim>\<open>```json\<close> yields; the same reply with the fence \<^verbatim>\<open>```Json\<close> yields no question.
  And in a reply whose first block is fenced in upper case and holds that question, followed
  by a block fenced in lower case with no question, the second block is the one read.
\<close>

theorem fence_case_sensitive_counterexample:
  "jparse questions_lib questions_block = Some questions_value
   \<and> parse_questions_from_json questions_value
      = Some \<lparr>questions = [example_question], current_question_index = 0\<rparr>
   \<and> extract_questions questions_lib (fenced_reply ''```json'')
      = \<lparr>questions = [example_question], current_question_index = 0\<rparr>
   \<and> extract_questions questions_lib (fenced_reply ''```Json'')
      = \<lparr>questions = [], current_question_index = 0\<rparr>
   \<and> extract_questions questions_lib
        (fenced_reply ''```JSON'' @ ''```json\<newline>{\"questions\":[]}\<newline>```'')
      = \<lparr>questions = [], current_question_index = 0\<rparr>"
proof -
  have 1: "jparse questions_lib questions_block = Some questions_value"
    by (simp add: questions_lib_def table_lib_def)
  have 2: "parse_questions_from_json questions_value
      = Some \<lparr>questions = [example_question], current_question_index = 0\<rparr>"
    by (simp add: eval_questions questions_value_def example_question_def)
  have 3: "extract_questions questions_lib (fenced_reply ''```json'')
      = \<lparr>questions = [example_question], current_question_index = 0\<rparr>"
    by (simp add: eval_questions questions_lib_def fenced_reply_def questions_block_def
        questions_value_def example_question_def)
  have 4: "extract_questions questions_lib (fenced_reply ''```Json'')
      = \<lparr>questions = [], current_question_index = 0\<rparr>"
    by (simp add: eval_questions questions_lib_def fenced_reply_def questions_block_def
        questions_value_def)
  have 5: "extract_questions questions_lib
        (fenced_reply ''```JSON'' @ ''```json\<newline>{\"questions\":[]}\<newline>```'')
      = \<lparr>questions = [], current_question_index = 0\<rparr>"
    by (simp add: eval_questions questions_lib_def fenced_reply_def questions_block_def
        questions_value_def)
  from 1 2 3 4 5 show ?thesis by (intro conjI)
qed

end
